theory Spec2Isabelle
  imports
    Complex_Main
    "HOL-Library.Word"
    "HOL-Library.Multiset"
    "HOL-Library.Signed_Division"
    "HOL-Library.Sublist"
begin

section \<open>Data model of the checker package\<close>

text \<open>
  Go's \<^verbatim>\<open>time.Duration\<close> is a signed 64-bit count of nanoseconds; its arithmetic wraps.
  A \<^verbatim>\<open>time.Time\<close> is read here as an unbounded count of nanoseconds since the epoch
  (its range of 64-bit seconds is never left by adding one \<^verbatim>\<open>Duration\<close>).
  Go's \<^verbatim>\<open>int\<close> fields (attempt counters, status codes, the concurrency level) are
  modelled as \<open>int\<close>; the retry loop counts from 0 up to \<^verbatim>\<open>Retries\<close>, so it stays inside the
  machine range for every \<^verbatim>\<open>Retries\<close> below the largest \<^verbatim>\<open>int\<close>.
\<close>

type_synonym duration = "64 word"
type_synonym time = int

definition Millisecond :: duration where
  "Millisecond = 1000000"

definition Second :: duration where
  "Second = 1000 * Millisecond"

text \<open>\<^verbatim>\<open>type Result struct\<close> (checker.go, lines 20-28).\<close>

record Result =
  URL :: string
  Status :: string
  StatusCode :: int
  Error :: string
  Duration :: duration
  Timestamp :: time
  Retries :: int

text \<open>
  \<^verbatim>\<open>type Config struct\<close> (lines 31-36). The field \<^verbatim>\<open>Retries\<close> is named \<open>MaxRetries\<close>
  here, because \<open>Retries\<close> already names the field of \<open>Result\<close>.
\<close>

record Config =
  Timeout :: duration
  Concurrency :: int
  MaxRetries :: int
  UserAgent :: string

text \<open>The run-time panics the package can raise.\<close>

datatype panic =
    NilPointerDereference
  | MakechanSizeOutOfRange
  | SendOnClosedChannel
  | NegativeWaitGroupCounter

section \<open>normalizeURL\<close>

text \<open>
  \<^verbatim>\<open>strings.HasPrefix(s, prefix)\<close> is
  \<^verbatim>\<open>len(s) >= len(prefix) && s[:len(prefix)] == prefix\<close>.
\<close>

definition HasPrefix :: "string \<Rightarrow> string \<Rightarrow> bool" where
  "HasPrefix s pre \<longleftrightarrow> length pre \<le> length s \<and> take (length pre) s = pre"

definition normalizeURL :: "string \<Rightarrow> string" where
  "normalizeURL url =
     (if \<not> HasPrefix url ''http://'' \<and> \<not> HasPrefix url ''https://''
      then ''https://'' @ url
      else url)"

section \<open>checkURL\<close>

text \<open>
  The network is a parameter of the model. For each iteration of the retry loop
  (\<^verbatim>\<open>attempt\<close> = 0, 1, ...) the transport says what happens there: building the request
  fails with a message, \<^verbatim>\<open>hc.client.Do\<close> fails with a message, or a response with a status
  code arrives. Every iteration comes to one of these: \<^verbatim>\<open>hc.client.Do\<close> is bounded by the
  client's timeout and by the deadline of \<^verbatim>\<open>ctx\<close>. The two clock readings of a
  \<^verbatim>\<open>return Result{...}\<close> (\<^verbatim>\<open>time.Since(start)\<close> and \<^verbatim>\<open>time.Now()\<close>) are inputs as well.
\<close>

datatype attempt_outcome =
    NewRequestFails string
  | DoFails string
  | Responds int

record transport =
  outcome :: "int \<Rightarrow> attempt_outcome"
  since_start :: duration
  time_now :: time

text \<open>
  What one call of \<^verbatim>\<open>checkURL\<close> does to the outside world, in order:
  \<^verbatim>\<open>http.NewRequestWithContext(ctx, "GET", url, nil)\<close>, \<^verbatim>\<open>hc.client.Do(req)\<close> with the
  \<^verbatim>\<open>User-Agent\<close> header set, \<^verbatim>\<open>io.CopyN(io.Discard, resp.Body, 4096)\<close> and
  \<^verbatim>\<open>time.Sleep(d)\<close>.
\<close>

datatype event =
    NewRequestWithContext time string
  | ClientDo string
  | CopyN int
  | Sleep duration

text \<open>\<^verbatim>\<open>time.Duration(attempt+1) * 500 * time.Millisecond\<close> (line 103).\<close>

definition backoff :: "int \<Rightarrow> duration" where
  "backoff attempt = word_of_int (attempt + 1) * 500 * Millisecond"

text \<open>
  The \<^verbatim>\<open>for\<close> loop of lines 81-126. It either executes one of the two \<^verbatim>\<open>return\<close>
  statements inside the body, or ends with the value of \<^verbatim>\<open>lastErr\<close> (\<open>None\<close> is \<^verbatim>\<open>nil\<close>).
\<close>

datatype loop_exit =
    Returned Result
  | LoopEnded "string option"

function checkURL_loop ::
  "Config \<Rightarrow> transport \<Rightarrow> time \<Rightarrow> string \<Rightarrow> int \<Rightarrow> string option \<Rightarrow> loop_exit \<times> event list"
where
  "checkURL_loop cfg env ctx url attempt lastErr =
     (if attempt \<le> MaxRetries cfg then
        (case outcome env attempt of
           NewRequestFails err \<Rightarrow>
             apsnd ((@) [NewRequestWithContext ctx url])
               (checkURL_loop cfg env ctx url (attempt + 1) (Some err))
         | DoFails err \<Rightarrow>
             if attempt = MaxRetries cfg then
               (Returned \<lparr>URL = url, Status = ''error'', StatusCode = 0, Error = err,
                   Duration = since_start env, Timestamp = time_now env, Retries = attempt\<rparr>,
                [NewRequestWithContext ctx url, ClientDo (UserAgent cfg)])
             else
               apsnd ((@) [NewRequestWithContext ctx url, ClientDo (UserAgent cfg),
                            Sleep (backoff attempt)])
                 (checkURL_loop cfg env ctx url (attempt + 1) (Some err))
         | Responds code \<Rightarrow>
             (Returned \<lparr>URL = url,
                 Status = (if code \<ge> 400 then ''error'' else ''success''),
                 StatusCode = code, Error = [],
                 Duration = since_start env, Timestamp = time_now env, Retries = attempt\<rparr>,
              [NewRequestWithContext ctx url, ClientDo (UserAgent cfg), CopyN 4096]))
      else (LoopEnded lastErr, []))"
  by pat_completeness auto
termination
  by (relation "measure (\<lambda>(cfg, env, ctx, url, attempt, lastErr). nat (MaxRetries cfg + 1 - attempt))")
    auto

declare checkURL_loop.simps [simp del]

text \<open>
  \<^verbatim>\<open>checkURL\<close> (lines 75-136): the loop from \<^verbatim>\<open>attempt := 0\<close> with \<^verbatim>\<open>lastErr\<close> nil, then the
  fallback \<^verbatim>\<open>return\<close> of lines 128-135, whose \<^verbatim>\<open>lastErr.Error()\<close> panics on a nil error.
\<close>

definition checkURL ::
  "Config \<Rightarrow> transport \<Rightarrow> time \<Rightarrow> string \<Rightarrow> (panic + Result) \<times> event list"
where
  "checkURL cfg env ctx url =
     (case checkURL_loop cfg env ctx url 0 None of
        (Returned r, tr) \<Rightarrow> (Inr r, tr)
      | (LoopEnded None, tr) \<Rightarrow> (Inl NilPointerDereference, tr)
      | (LoopEnded (Some err), tr) \<Rightarrow>
          (Inr \<lparr>URL = url, Status = ''error'', StatusCode = 0, Error = err,
                 Duration = since_start env, Timestamp = time_now env,
                 Retries = MaxRetries cfg\<rparr>, tr))"

text \<open>The iterations of the retry loop that a trace shows: each one starts by building a request.\<close>

fun is_NewRequest :: "event \<Rightarrow> bool" where
  "is_NewRequest (NewRequestWithContext c u) = True"
| "is_NewRequest e = False"

definition attempts :: "event list \<Rightarrow> int" where
  "attempts tr = int (length (filter is_NewRequest tr))"

text \<open>
  The events of one iteration that ends in a transport failure and is followed by another
  iteration, and of all such iterations from \<open>i\<close> up to but excluding \<open>a\<close>.
\<close>

definition failed_attempt :: "Config \<Rightarrow> transport \<Rightarrow> time \<Rightarrow> string \<Rightarrow> int \<Rightarrow> event list" where
  "failed_attempt cfg env ctx url j =
     (case outcome env j of
        NewRequestFails err \<Rightarrow> [NewRequestWithContext ctx url]
      | DoFails err \<Rightarrow>
          [NewRequestWithContext ctx url, ClientDo (UserAgent cfg), Sleep (backoff j)]
      | Responds code \<Rightarrow> [])"

definition failed_attempts ::
  "Config \<Rightarrow> transport \<Rightarrow> time \<Rightarrow> string \<Rightarrow> int \<Rightarrow> int \<Rightarrow> event list" where
  "failed_attempts cfg env ctx url i a = concat (map (failed_attempt cfg env ctx url) [i..a - 1])"

fun is_failure :: "attempt_outcome \<Rightarrow> bool" where
  "is_failure (Responds code) = False"
| "is_failure other = True"

text \<open>The loop reaches iteration \<open>a\<close> exactly when no earlier iteration received a response.\<close>

definition reaches_attempt :: "Config \<Rightarrow> transport \<Rightarrow> int \<Rightarrow> bool" where
  "reaches_attempt cfg env a \<longleftrightarrow>
     0 \<le> a \<and> a \<le> MaxRetries cfg \<and> list_all (\<lambda>j. is_failure (outcome env j)) [0..a - 1]"

text \<open>The defaults of \<^verbatim>\<open>NewHealthChecker\<close> (lines 51-56), and transports to run the model on.\<close>

definition default_config :: Config where
  "default_config =
     \<lparr>Timeout = 10 * Second, Concurrency = 5, MaxRetries = 1, UserAgent = ''HealthChecker/1.0''\<rparr>"

definition always_responds :: "int \<Rightarrow> transport" where
  "always_responds code =
     \<lparr>outcome = (\<lambda>attempt. Responds code), since_start = 100 * Millisecond, time_now = 0\<rparr>"

definition never_connects :: transport where
  "never_connects =
     \<lparr>outcome = (\<lambda>attempt. DoFails ''connection refused''),
      since_start = 1500 * Millisecond, time_now = 0\<rparr>"

definition never_builds :: transport where
  "never_builds =
     \<lparr>outcome = (\<lambda>attempt. NewRequestFails ''invalid URL escape''),
      since_start = 0, time_now = 0\<rparr>"

definition fails_once :: transport where
  "fails_once =
     \<lparr>outcome = (\<lambda>attempt. if attempt = 0 then DoFails ''connection refused'' else Responds 200),
      since_start = 600 * Millisecond, time_now = 0\<rparr>"

section \<open>NewHealthChecker, worker and CheckAll\<close>

text \<open>
  \<^verbatim>\<open>NewHealthChecker\<close> (lines 49-72). A nil \<^verbatim>\<open>config\<close> is \<open>None\<close>. The value built holds the
  configuration and two empty channels, of which the model keeps the capacities:
  \<^verbatim>\<open>make(chan struct{}, config.Concurrency)\<close> and \<^verbatim>\<open>make(chan Result, 100)\<close>. Go's \<^verbatim>\<open>make\<close>
  panics on a negative size. The HTTP client is the \<open>transport\<close> parameter of \<open>checkURL\<close>.
\<close>

record HealthChecker =
  config :: Config
  semaphore_cap :: nat
  results_cap :: nat

definition NewHealthChecker :: "Config option \<Rightarrow> panic + HealthChecker" where
  "NewHealthChecker c =
     (let cfg = (case c of None \<Rightarrow> default_config | Some given \<Rightarrow> given)
      in if Concurrency cfg < 0 then Inl MakechanSizeOutOfRange
         else Inr \<lparr>config = cfg, semaphore_cap = nat (Concurrency cfg), results_cap = 100\<rparr>)"

text \<open>
  Where a \<^verbatim>\<open>worker\<close> goroutine (lines 139-147) stands: at the \<^verbatim>\<open>range\<close> over the URL channel,
  before \<^verbatim>\<open>hc.semaphore <- struct{}{}\<close> with the URL it received, inside
  \<^verbatim>\<open>hc.checkURL(ctx, url)\<close>, before \<^verbatim>\<open>hc.results <- result\<close>, before \<^verbatim>\<open><-hc.semaphore\<close>, or
  past the loop, its deferred \<^verbatim>\<open>hc.wg.Done()\<close> executed.
\<close>

datatype worker_at =
    AtRange
  | AtAcquire string
  | AtCheck string
  | AtSend Result
  | AtRelease
  | Exited

text \<open>
  The state of one \<^verbatim>\<open>CheckAll\<close> call (lines 150-182): the deadline of \<^verbatim>\<open>ctx\<close>; the URLs the
  sender goroutine (lines 164-169) has not sent yet; the buffered channel \<^verbatim>\<open>urlChan\<close>; the
  workers; the number of tokens in \<^verbatim>\<open>hc.semaphore\<close>; the buffered channel \<^verbatim>\<open>hc.results\<close>,
  which the goroutine of lines 172-175 closes after \<^verbatim>\<open>hc.wg.Wait()\<close>; the counter of \<^verbatim>\<open>hc.wg\<close>;
  the slice \<^verbatim>\<open>allResults\<close> and whether the main goroutine has left its collecting loop and
  returned it; and the panic that ended the process, if any.
\<close>

record sched =
  ctx_deadline :: time
  to_send :: "string list"
  urlChan :: "string list"
  urlChan_cap :: nat
  urlChan_closed :: bool
  workers :: "worker_at list"
  semaphore :: nat
  results :: "Result list"
  results_closed :: bool
  wg :: "32 word"
  allResults :: "Result list"
  returned :: bool
  panicked :: "panic option"

text \<open>
  The counter of a \<^verbatim>\<open>sync.WaitGroup\<close> has 32 bits. \<^verbatim>\<open>Add(delta)\<close> adds \<^verbatim>\<open>uint64(delta) << 32\<close>
  to the 64-bit state, whose high half is the counter, reads the new counter as an \<^verbatim>\<open>int32\<close>
  and panics when that is negative; so only the low 32 bits of \<^verbatim>\<open>delta\<close> count.
  \<^verbatim>\<open>Done()\<close> is \<^verbatim>\<open>Add(-1)\<close>, and \<^verbatim>\<open>Wait()\<close> returns when the counter is 0.
\<close>

definition WaitGroup_Add :: "32 word \<Rightarrow> int \<Rightarrow> panic + 32 word" where
  "WaitGroup_Add counter delta =
     (let v = counter + word_of_int delta
      in if sint v < 0 then Inl NegativeWaitGroupCounter else Inr v)"

text \<open>
  The start of \<^verbatim>\<open>CheckAll\<close> at time \<open>now\<close>, up to the point where all goroutines exist (lines
  151-175) and none has taken a step. \<^verbatim>\<open>context.WithTimeout(parent, d)\<close> sets the deadline
  \<^verbatim>\<open>time.Now().Add(d)\<close>, with \<^verbatim>\<open>d = hc.config.Timeout*time.Duration(len(urls))\<close> a product of
  \<^verbatim>\<open>Duration\<close>s. \<^verbatim>\<open>hc.wg.Add(hc.config.Concurrency)\<close> (line 158) comes before the first
  \<^verbatim>\<open>go\<close> statement; the loop of lines 159-161 then starts \<^verbatim>\<open>Concurrency\<close> workers, none for a
  negative value. The channels and the wait group of a \<open>HealthChecker\<close> fresh from
  \<open>NewHealthChecker\<close> are empty, open and zero. The memory the goroutines need is not
  modelled.
\<close>

definition CheckAll_timeout :: "HealthChecker \<Rightarrow> string list \<Rightarrow> duration" where
  "CheckAll_timeout hc urls = Timeout (config hc) * word_of_nat (length urls)"

definition CheckAll_init :: "HealthChecker \<Rightarrow> time \<Rightarrow> string list \<Rightarrow> panic + sched" where
  "CheckAll_init hc now urls =
     (case WaitGroup_Add 0 (Concurrency (config hc)) of
        Inl p \<Rightarrow> Inl p
      | Inr counter \<Rightarrow>
          Inr \<lparr>ctx_deadline = now + sint (CheckAll_timeout hc urls),
                to_send = urls,
                urlChan = [], urlChan_cap = length urls, urlChan_closed = False,
                workers = replicate (nat (Concurrency (config hc))) AtRange,
                semaphore = 0,
                results = [], results_closed = False,
                wg = counter,
                allResults = [], returned = False, panicked = None\<rparr>)"

text \<open>
  One step of one goroutine. A send on a buffered channel needs room, a receive needs an
  element or a closed channel, a send on a closed channel panics, and a panic ends the
  process: no goroutine moves after it. \<open>checkURL\<close> runs against any transport.
\<close>

inductive step :: "HealthChecker \<Rightarrow> sched \<Rightarrow> sched \<Rightarrow> bool" for hc :: HealthChecker where
  send_url:
    "panicked s = None \<Longrightarrow> to_send s = u # us \<Longrightarrow> length (urlChan s) < urlChan_cap s \<Longrightarrow>
     step hc s (s\<lparr>to_send := us, urlChan := urlChan s @ [normalizeURL u]\<rparr>)"
| close_urlChan:
    "panicked s = None \<Longrightarrow> to_send s = [] \<Longrightarrow> \<not> urlChan_closed s \<Longrightarrow>
     step hc s (s\<lparr>urlChan_closed := True\<rparr>)"
| worker_receive:
    "panicked s = None \<Longrightarrow> i < length (workers s) \<Longrightarrow> workers s ! i = AtRange \<Longrightarrow>
     urlChan s = u # us \<Longrightarrow>
     step hc s (s\<lparr>urlChan := us, workers := (workers s)[i := AtAcquire u]\<rparr>)"
| worker_exit:
    "panicked s = None \<Longrightarrow> i < length (workers s) \<Longrightarrow> workers s ! i = AtRange \<Longrightarrow>
     urlChan s = [] \<Longrightarrow> urlChan_closed s \<Longrightarrow> WaitGroup_Add (wg s) (- 1) = Inr counter \<Longrightarrow>
     step hc s (s\<lparr>workers := (workers s)[i := Exited], wg := counter\<rparr>)"
| worker_exit_panic:
    "panicked s = None \<Longrightarrow> i < length (workers s) \<Longrightarrow> workers s ! i = AtRange \<Longrightarrow>
     urlChan s = [] \<Longrightarrow> urlChan_closed s \<Longrightarrow> WaitGroup_Add (wg s) (- 1) = Inl p \<Longrightarrow>
     step hc s (s\<lparr>panicked := Some p\<rparr>)"
| acquire:
    "panicked s = None \<Longrightarrow> i < length (workers s) \<Longrightarrow> workers s ! i = AtAcquire u \<Longrightarrow>
     semaphore s < semaphore_cap hc \<Longrightarrow>
     step hc s (s\<lparr>semaphore := semaphore s + 1, workers := (workers s)[i := AtCheck u]\<rparr>)"
| check:
    "panicked s = None \<Longrightarrow> i < length (workers s) \<Longrightarrow> workers s ! i = AtCheck u \<Longrightarrow>
     fst (checkURL (config hc) env (ctx_deadline s) u) = Inr r \<Longrightarrow>
     step hc s (s\<lparr>workers := (workers s)[i := AtSend r]\<rparr>)"
| check_panic:
    "panicked s = None \<Longrightarrow> i < length (workers s) \<Longrightarrow> workers s ! i = AtCheck u \<Longrightarrow>
     fst (checkURL (config hc) env (ctx_deadline s) u) = Inl p \<Longrightarrow>
     step hc s (s\<lparr>panicked := Some p\<rparr>)"
| send_result:
    "panicked s = None \<Longrightarrow> i < length (workers s) \<Longrightarrow> workers s ! i = AtSend r \<Longrightarrow>
     \<not> results_closed s \<Longrightarrow> length (results s) < results_cap hc \<Longrightarrow>
     step hc s (s\<lparr>results := results s @ [r], workers := (workers s)[i := AtRelease]\<rparr>)"
| send_result_panic:
    "panicked s = None \<Longrightarrow> i < length (workers s) \<Longrightarrow> workers s ! i = AtSend r \<Longrightarrow>
     results_closed s \<Longrightarrow>
     step hc s (s\<lparr>panicked := Some SendOnClosedChannel\<rparr>)"
| release:
    "panicked s = None \<Longrightarrow> i < length (workers s) \<Longrightarrow> workers s ! i = AtRelease \<Longrightarrow>
     0 < semaphore s \<Longrightarrow>
     step hc s (s\<lparr>semaphore := semaphore s - 1, workers := (workers s)[i := AtRange]\<rparr>)"
| close_results:
    "panicked s = None \<Longrightarrow> wg s = 0 \<Longrightarrow> \<not> results_closed s \<Longrightarrow>
     step hc s (s\<lparr>results_closed := True\<rparr>)"
| collect:
    "panicked s = None \<Longrightarrow> \<not> returned s \<Longrightarrow> results s = r # rs \<Longrightarrow>
     step hc s (s\<lparr>results := rs, allResults := allResults s @ [r]\<rparr>)"
| return_allResults:
    "panicked s = None \<Longrightarrow> \<not> returned s \<Longrightarrow> results s = [] \<Longrightarrow> results_closed s \<Longrightarrow>
     step hc s (s\<lparr>returned := True\<rparr>)"

text \<open>The states a call \<^verbatim>\<open>hc.CheckAll(urls)\<close> made at time \<open>now\<close> can be in.\<close>

inductive CheckAll_reaches :: "HealthChecker \<Rightarrow> time \<Rightarrow> string list \<Rightarrow> sched \<Rightarrow> bool"
  for hc :: HealthChecker and now :: time and urls :: "string list"
where
  start: "CheckAll_init hc now urls = Inr s \<Longrightarrow> CheckAll_reaches hc now urls s"
| after: "CheckAll_reaches hc now urls s \<Longrightarrow> step hc s s' \<Longrightarrow> CheckAll_reaches hc now urls s'"

text \<open>
  The number of checks in flight (workers inside \<open>checkURL\<close>) and the number of workers that
  hold a token of the semaphore (from the send of line 142 to the receive of line 145).
\<close>

fun in_checkURL :: "worker_at \<Rightarrow> nat" where
  "in_checkURL (AtCheck u) = 1"
| "in_checkURL w = 0"

fun holds_token :: "worker_at \<Rightarrow> nat" where
  "holds_token (AtCheck u) = 1"
| "holds_token (AtSend r) = 1"
| "holds_token AtRelease = 1"
| "holds_token w = 0"

fun running :: "worker_at \<Rightarrow> nat" where
  "running Exited = 0"
| "running w = 1"

definition workers_running :: "sched \<Rightarrow> nat" where
  "workers_running s = sum_list (map running (workers s))"

definition checks_in_flight :: "sched \<Rightarrow> nat" where
  "checks_in_flight s = sum_list (map in_checkURL (workers s))"

definition tokens_held :: "sched \<Rightarrow> nat" where
  "tokens_held s = sum_list (map holds_token (workers s))"

text \<open>The URL a worker has received and not yet reported on.\<close>

fun carries :: "worker_at \<Rightarrow> string multiset" where
  "carries (AtAcquire u) = {#u#}"
| "carries (AtCheck u) = {#u#}"
| "carries (AtSend r) = {#URL r#}"
| "carries w = {#}"

text \<open>
  Every URL of the call is in exactly one place: not yet sent, in \<^verbatim>\<open>urlChan\<close>, with a worker,
  in \<^verbatim>\<open>hc.results\<close>, or in \<^verbatim>\<open>allResults\<close>.
\<close>

definition urls_of :: "sched \<Rightarrow> string multiset" where
  "urls_of s =
     mset (map normalizeURL (to_send s)) + mset (urlChan s) + sum_list (map carries (workers s))
       + mset (map URL (results s)) + mset (map URL (allResults s))"

text \<open>
  A bound on the number of steps still possible: every step of every goroutine lowers it.
\<close>

fun worker_steps :: "worker_at \<Rightarrow> nat" where
  "worker_steps (AtAcquire u) = 6"
| "worker_steps (AtCheck u) = 5"
| "worker_steps (AtSend r) = 4"
| "worker_steps AtRelease = 2"
| "worker_steps AtRange = 1"
| "worker_steps Exited = 0"

definition steps_left :: "sched \<Rightarrow> nat" where
  "steps_left s =
     7 * length (to_send s) + 6 * length (urlChan s) + sum_list (map worker_steps (workers s))
       + length (results s)
       + of_bool (\<not> urlChan_closed s) + of_bool (\<not> results_closed s)
       + of_bool (\<not> returned s) + of_bool (panicked s = None)"

text \<open>
  What holds in every state of a call: the deadline and the capacity of \<^verbatim>\<open>urlChan\<close> are the
  initial ones; there are \<^verbatim>\<open>Concurrency\<close> workers; the semaphore holds one token per worker
  between lines 142 and 145; the wait group counts, in 32 bits, the workers still running;
  no URL is lost or duplicated; the sender never finds \<^verbatim>\<open>urlChan\<close> full and closes it only
  when done; a worker exits only when \<^verbatim>\<open>urlChan\<close> is closed and drained; \<^verbatim>\<open>hc.results\<close> is
  closed only when the wait group is at 0; \<^verbatim>\<open>CheckAll\<close> returns only when \<^verbatim>\<open>hc.results\<close> is
  closed and drained.
\<close>

definition sched_inv :: "HealthChecker \<Rightarrow> time \<Rightarrow> string list \<Rightarrow> sched \<Rightarrow> bool" where
  "sched_inv hc now urls s \<longleftrightarrow>
     ctx_deadline s = now + sint (CheckAll_timeout hc urls) \<and>
     urlChan_cap s = length urls \<and>
     length (workers s) = nat (Concurrency (config hc)) \<and>
     semaphore s = tokens_held s \<and>
     wg s = word_of_nat (workers_running s) \<and>
     urls_of s = mset (map normalizeURL urls) \<and>
     length (to_send s) + length (urlChan s) \<le> urlChan_cap s \<and>
     (urlChan_closed s \<longrightarrow> to_send s = []) \<and>
     (Exited \<in> set (workers s) \<longrightarrow> urlChan_closed s \<and> urlChan s = []) \<and>
     (results_closed s \<longrightarrow> wg s = 0) \<and>
     (returned s \<longrightarrow> results_closed s \<and> results s = [])"

text \<open>
  A call with nothing to do: it has no worker or no URL, no worker has received a URL, and
  no result exists.
\<close>

definition idle :: "sched \<Rightarrow> bool" where
  "idle s \<longleftrightarrow>
     list_all (\<lambda>w. w = AtRange \<or> w = Exited) (workers s) \<and> results s = [] \<and> allResults s = []
     \<and> (workers s = [] \<or> (to_send s = [] \<and> urlChan s = []))"

section \<open>main\<close>

text \<open>
  \<^verbatim>\<open>main\<close> (the second source file), from the parsed flags and the loaded URL list to the
  call of \<^verbatim>\<open>CheckAll\<close>: an empty list prints the usage text and calls \<^verbatim>\<open>os.Exit(1)\<close>.
\<close>

record Flags =
  timeout :: duration
  concurrent :: int
  retries :: int
  outputFormat :: string

datatype startup =
    UsageExit int
  | StartupPanic panic
  | Started HealthChecker sched

definition main_startup :: "Flags \<Rightarrow> string list \<Rightarrow> time \<Rightarrow> startup" where
  "main_startup flags urls now =
     (if length urls = 0 then UsageExit 1
      else
        (case NewHealthChecker
                (Some \<lparr>Timeout = timeout flags, Concurrency = concurrent flags,
                        MaxRetries = retries flags, UserAgent = ''HealthChecker/1.0''\<rparr>) of
           Inl p \<Rightarrow> StartupPanic p
         | Inr hc \<Rightarrow>
             (case CheckAll_init hc now urls of
                Inl p \<Rightarrow> StartupPanic p
              | Inr s \<Rightarrow> Started hc s)))"

section \<open>PrintStats\<close>

text \<open>
  The values \<^verbatim>\<open>PrintStats\<close> (lines 277-305) computes and prints; \<open>None\<close> is the early return
  on an empty list. The two durations are printed rounded to the millisecond and the rate
  with one decimal; the model keeps the values before formatting. Go's \<^verbatim>\<open>/\<close> on
  \<^verbatim>\<open>Duration\<close> truncates towards zero. The success rate is
  computed in \<^verbatim>\<open>float64\<close>; the model gives the exact quotient, which the \<^verbatim>\<open>float64\<close> value
  equals whenever count, quotient and product are representable, as 1, 2, 0.5 and 50 are.
\<close>

record Stats =
  checks :: int
  successCount :: int
  errorCount :: int
  avgTime :: duration
  totalTime :: duration
  successRate :: rat

fun stats_loop :: "Result list \<Rightarrow> duration \<times> int \<times> int \<Rightarrow> duration \<times> int \<times> int" where
  "stats_loop [] acc = acc"
| "stats_loop (r # rs) (totalT, nSuccess, nError) =
     (if Status r = ''success''
      then stats_loop rs (totalT + Duration r, nSuccess + 1, nError)
      else stats_loop rs (totalT + Duration r, nSuccess, nError + 1))"

definition duration_div :: "duration \<Rightarrow> duration \<Rightarrow> duration" where
  "duration_div a b = word_of_int (sint a sdiv sint b)"

definition PrintStats :: "Result list \<Rightarrow> Stats option" where
  "PrintStats rs =
     (if length rs = 0 then None
      else
        (case stats_loop rs (0, 0, 0) of
           (totalT, nSuccess, nError) \<Rightarrow>
             Some \<lparr>checks = int (length rs), successCount = nSuccess, errorCount = nError,
                    avgTime = duration_div totalT (word_of_nat (length rs)),
                    totalTime = totalT,
                    successRate = of_int nSuccess / of_nat (length rs) * 100\<rparr>))"

section \<open>Properties of normalizeURL and checkURL\<close>

lemma HasPrefix_iff_prefix: "HasPrefix s pre \<longleftrightarrow> prefix pre s"
proof
  assume "HasPrefix s pre"
  then have "pre = take (length pre) s"
    by (simp add: HasPrefix_def)
  then show "prefix pre s"
    by (metis take_is_prefix)
next
  assume "prefix pre s"
  then obtain rest where "s = pre @ rest"
    by (auto simp: prefix_def)
  then show "HasPrefix s pre"
    by (simp add: HasPrefix_def)
qed

lemma sint_word64_of_int:
  assumes "- (2 ^ 63) \<le> k" "k < 2 ^ 63"
  shows "sint (word_of_int k :: 64 word) = k"
  using assms by (simp add: sint_sbintrunc' signed_take_bit_int_eq_self)


lemma loop_NewRequestFails:
  "attempt \<le> MaxRetries cfg \<Longrightarrow> outcome env attempt = NewRequestFails err \<Longrightarrow>
   checkURL_loop cfg env ctx url attempt lastErr =
     apsnd ((@) [NewRequestWithContext ctx url])
       (checkURL_loop cfg env ctx url (attempt + 1) (Some err))"
  by (subst checkURL_loop.simps) simp

lemma loop_DoFails_last:
  "attempt = MaxRetries cfg \<Longrightarrow> outcome env attempt = DoFails err \<Longrightarrow>
   checkURL_loop cfg env ctx url attempt lastErr =
     (Returned \<lparr>URL = url, Status = ''error'', StatusCode = 0, Error = err,
         Duration = since_start env, Timestamp = time_now env, Retries = attempt\<rparr>,
      [NewRequestWithContext ctx url, ClientDo (UserAgent cfg)])"
  by (subst checkURL_loop.simps) simp

lemma loop_DoFails_retry:
  "attempt < MaxRetries cfg \<Longrightarrow> outcome env attempt = DoFails err \<Longrightarrow>
   checkURL_loop cfg env ctx url attempt lastErr =
     apsnd ((@) [NewRequestWithContext ctx url, ClientDo (UserAgent cfg), Sleep (backoff attempt)])
       (checkURL_loop cfg env ctx url (attempt + 1) (Some err))"
  by (subst checkURL_loop.simps) simp

lemma loop_Responds:
  "attempt \<le> MaxRetries cfg \<Longrightarrow> outcome env attempt = Responds code \<Longrightarrow>
   checkURL_loop cfg env ctx url attempt lastErr =
     (Returned \<lparr>URL = url, Status = (if code \<ge> 400 then ''error'' else ''success''),
         StatusCode = code, Error = [],
         Duration = since_start env, Timestamp = time_now env, Retries = attempt\<rparr>,
      [NewRequestWithContext ctx url, ClientDo (UserAgent cfg), CopyN 4096])"
  by (subst checkURL_loop.simps) simp

lemma loop_exit:
  "MaxRetries cfg < attempt \<Longrightarrow>
   checkURL_loop cfg env ctx url attempt lastErr = (LoopEnded lastErr, [])"
  by (subst checkURL_loop.simps) simp

lemmas loop_unfold =
  loop_NewRequestFails loop_DoFails_last loop_DoFails_retry loop_Responds loop_exit

text \<open>
  Induction along the iterations of the loop: a property of the loop's value holds from
  iteration \<open>attempt\<close> on when it holds for each way an iteration can go, given that it holds
  from the next iteration on where the loop continues.
\<close>

lemma checkURL_loop_induct [case_names exit new_request_fails do_fails_last do_fails_retry responds]:
  assumes exit: "\<And>attempt lastErr. MaxRetries cfg < attempt \<Longrightarrow> P attempt lastErr (LoopEnded lastErr, [])"
    and new_request_fails: "\<And>attempt lastErr err x tr.
      attempt \<le> MaxRetries cfg \<Longrightarrow> outcome env attempt = NewRequestFails err \<Longrightarrow>
      checkURL_loop cfg env ctx url (attempt + 1) (Some err) = (x, tr) \<Longrightarrow>
      P (attempt + 1) (Some err) (x, tr) \<Longrightarrow>
      P attempt lastErr (x, NewRequestWithContext ctx url # tr)"
    and do_fails_last: "\<And>attempt lastErr err.
      attempt = MaxRetries cfg \<Longrightarrow> outcome env attempt = DoFails err \<Longrightarrow>
      P attempt lastErr
        (Returned \<lparr>URL = url, Status = ''error'', StatusCode = 0, Error = err,
           Duration = since_start env, Timestamp = time_now env, Retries = attempt\<rparr>,
         [NewRequestWithContext ctx url, ClientDo (UserAgent cfg)])"
    and do_fails_retry: "\<And>attempt lastErr err x tr.
      attempt < MaxRetries cfg \<Longrightarrow> outcome env attempt = DoFails err \<Longrightarrow>
      checkURL_loop cfg env ctx url (attempt + 1) (Some err) = (x, tr) \<Longrightarrow>
      P (attempt + 1) (Some err) (x, tr) \<Longrightarrow>
      P attempt lastErr
        (x, NewRequestWithContext ctx url # ClientDo (UserAgent cfg) # Sleep (backoff attempt) # tr)"
    and responds: "\<And>attempt lastErr code.
      attempt \<le> MaxRetries cfg \<Longrightarrow> outcome env attempt = Responds code \<Longrightarrow>
      P attempt lastErr
        (Returned \<lparr>URL = url, Status = (if code \<ge> 400 then ''error'' else ''success''),
           StatusCode = code, Error = [],
           Duration = since_start env, Timestamp = time_now env, Retries = attempt\<rparr>,
         [NewRequestWithContext ctx url, ClientDo (UserAgent cfg), CopyN 4096])"
  shows "P attempt lastErr (checkURL_loop cfg env ctx url attempt lastErr)"
  using assms
proof (induction cfg env ctx url attempt lastErr rule: checkURL_loop.induct)
  case (1 cfg env ctx url attempt lastErr)
  show ?case
  proof (cases "attempt \<le> MaxRetries cfg")
    case False
    then show ?thesis
      using "1.prems"(1) [of attempt lastErr] by (simp add: loop_exit)
  next
    case le: True
    show ?thesis
    proof (cases "outcome env attempt")
      case (NewRequestFails err)
      obtain x tr where nxt: "checkURL_loop cfg env ctx url (attempt + 1) (Some err) = (x, tr)"
        by (cases "checkURL_loop cfg env ctx url (attempt + 1) (Some err)")
      have "P (attempt + 1) (Some err) (checkURL_loop cfg env ctx url (attempt + 1) (Some err))"
        by (rule "1.IH"(1) [OF le NewRequestFails "1.prems"])
      with "1.prems"(2) [OF le NewRequestFails nxt] nxt le NewRequestFails show ?thesis
        by (simp add: loop_NewRequestFails)
    next
      case (DoFails err)
      show ?thesis
      proof (cases "attempt = MaxRetries cfg")
        case True
        from "1.prems"(3) [OF True DoFails, of lastErr] True DoFails show ?thesis
          by (simp add: loop_DoFails_last)
      next
        case False
        with le have lt: "attempt < MaxRetries cfg" by simp
        obtain x tr where nxt: "checkURL_loop cfg env ctx url (attempt + 1) (Some err) = (x, tr)"
          by (cases "checkURL_loop cfg env ctx url (attempt + 1) (Some err)")
        have "P (attempt + 1) (Some err) (checkURL_loop cfg env ctx url (attempt + 1) (Some err))"
          by (rule "1.IH"(2) [OF le DoFails False "1.prems"])
        with "1.prems"(4) [OF lt DoFails nxt] nxt lt DoFails show ?thesis
          by (simp add: loop_DoFails_retry)
      qed
    next
      case (Responds code)
      from "1.prems"(5) [OF le Responds, of lastErr] le Responds show ?thesis
        by (simp add: loop_Responds)
    qed
  qed
qed

lemma failed_attempts_empty [simp]: "a \<le> i \<Longrightarrow> failed_attempts cfg env ctx url i a = []"
  by (simp add: failed_attempts_def)

lemma failed_attempts_step:
  "i < a \<Longrightarrow> failed_attempts cfg env ctx url i a =
     failed_attempt cfg env ctx url i @ failed_attempts cfg env ctx url (i + 1) a"
  by (simp add: failed_attempts_def upto_rec1)

lemma apsnd_append_append:
  "apsnd ((@) xs) (apsnd ((@) ys) p) = apsnd ((@) (xs @ ys)) p"
  by (cases p) simp

lemma checkURL_loop_skip:
  "i \<le> a \<Longrightarrow> a \<le> MaxRetries cfg \<Longrightarrow>
   (\<forall>j. i \<le> j \<and> j < a \<longrightarrow> is_failure (outcome env j)) \<Longrightarrow>
   \<exists>le. checkURL_loop cfg env ctx url i lastErr =
     apsnd ((@) (failed_attempts cfg env ctx url i a)) (checkURL_loop cfg env ctx url a le)"
proof (induction cfg env ctx url i lastErr rule: checkURL_loop.induct)
  case (1 cfg env ctx url attempt lastErr)
  show ?case
  proof (cases "attempt = a")
    case True
    then show ?thesis
      by (cases "checkURL_loop cfg env ctx url a lastErr") (auto intro!: exI [of _ lastErr])
  next
    case False
    with "1.prems" have lt: "attempt < a" and le: "attempt \<le> MaxRetries cfg"
      and ne: "attempt \<noteq> MaxRetries cfg" and fail: "is_failure (outcome env attempt)"
      and nxt: "attempt + 1 \<le> a"
      and rest: "\<forall>j. attempt + 1 \<le> j \<and> j < a \<longrightarrow> is_failure (outcome env j)"
      by auto
    show ?thesis
    proof (cases "outcome env attempt")
      case (NewRequestFails err)
      from "1.IH"(1) [OF le NewRequestFails nxt "1.prems"(2) rest]
      obtain le' where "checkURL_loop cfg env ctx url (attempt + 1) (Some err) =
          apsnd ((@) (failed_attempts cfg env ctx url (attempt + 1) a))
            (checkURL_loop cfg env ctx url a le')" ..
      then have "checkURL_loop cfg env ctx url attempt lastErr =
          apsnd ((@) (failed_attempts cfg env ctx url attempt a))
            (checkURL_loop cfg env ctx url a le')"
        using le NewRequestFails lt
        by (simp add: loop_unfold failed_attempts_step [OF lt] failed_attempt_def
            apsnd_append_append)
      then show ?thesis ..
    next
      case (DoFails err)
      from "1.IH"(2) [OF le DoFails ne nxt "1.prems"(2) rest]
      obtain le' where "checkURL_loop cfg env ctx url (attempt + 1) (Some err) =
          apsnd ((@) (failed_attempts cfg env ctx url (attempt + 1) a))
            (checkURL_loop cfg env ctx url a le')" ..
      then have "checkURL_loop cfg env ctx url attempt lastErr =
          apsnd ((@) (failed_attempts cfg env ctx url attempt a))
            (checkURL_loop cfg env ctx url a le')"
        using le DoFails lt ne
        by (simp add: loop_unfold failed_attempts_step [OF lt] failed_attempt_def
            apsnd_append_append)
      then show ?thesis ..
    next
      case (Responds code)
      with fail show ?thesis by simp
    qed
  qed
qed

lemma checkURL_loop_starts:
  "attempt \<le> MaxRetries cfg \<Longrightarrow>
   \<exists>rest. snd (checkURL_loop cfg env ctx url attempt lastErr) = NewRequestWithContext ctx url # rest"
  by (cases "outcome env attempt"; cases "attempt = MaxRetries cfg")
    (auto simp: loop_unfold)

lemma attempts_Nil [simp]: "attempts [] = 0"
  by (simp add: attempts_def)

lemma attempts_Cons [simp]:
  "attempts (e # tr) = (if is_NewRequest e then 1 else 0) + attempts tr"
  by (simp add: attempts_def)

lemma attempts_append [simp]: "attempts (xs @ ys) = attempts xs + attempts ys"
  by (simp add: attempts_def)

text \<open>The \<open>Retries\<close> field of a returned result, and the number of iterations run.\<close>

lemma checkURL_loop_attempts:
  "\<forall>x tr. checkURL_loop cfg env ctx url attempt lastErr = (x, tr) \<longrightarrow>
     attempt \<le> MaxRetries cfg + 1 \<longrightarrow>
     (case x of
        Returned r \<Rightarrow> attempts tr = Retries r + 1 - attempt \<and> attempt \<le> Retries r
          \<and> Retries r \<le> MaxRetries cfg
      | LoopEnded le \<Rightarrow> attempts tr = MaxRetries cfg + 1 - attempt)"
proof (induction attempt lastErr rule: checkURL_loop_induct [of cfg _ env ctx url])
  case (new_request_fails attempt lastErr err x tr)
  then show ?case by (cases x) auto
next
  case (do_fails_retry attempt lastErr err x tr)
  then show ?case by (cases x) auto
qed auto

text \<open>
  The loop ends without a \<^verbatim>\<open>return\<close> only after a request-construction failure in the last
  iteration, or without running at all.
\<close>

lemma checkURL_loop_ended:
  "\<forall>le tr. checkURL_loop cfg env ctx url attempt lastErr = (LoopEnded le, tr) \<longrightarrow>
     (attempt \<le> MaxRetries cfg \<longrightarrow>
        (\<exists>e. le = Some e \<and> outcome env (MaxRetries cfg) = NewRequestFails e))
     \<and> (MaxRetries cfg < attempt \<longrightarrow> le = lastErr \<and> tr = [])"
proof (induction attempt lastErr rule: checkURL_loop_induct [of cfg _ env ctx url])
  case (new_request_fails attempt lastErr err x tr)
  then show ?case
    by (cases "attempt = MaxRetries cfg") auto
qed auto

lemma checkURL_loop_URL:
  "\<forall>r tr. checkURL_loop cfg env ctx url attempt lastErr = (Returned r, tr) \<longrightarrow> URL r = url"
  by (induction attempt lastErr rule: checkURL_loop_induct [of cfg _ env ctx url]) auto

text \<open>When no iteration receives a response, the result is an error after the last iteration.\<close>

lemma checkURL_loop_all_fail:
  "\<forall>r tr. checkURL_loop cfg env ctx url attempt lastErr = (Returned r, tr) \<longrightarrow>
     (\<forall>j. attempt \<le> j \<and> j \<le> MaxRetries cfg \<longrightarrow> is_failure (outcome env j)) \<longrightarrow>
     Status r = ''error'' \<and> Retries r = MaxRetries cfg"
proof (induction attempt lastErr rule: checkURL_loop_induct [of cfg _ env ctx url])
  case (responds attempt lastErr code)
  then show ?case by (auto dest: spec [of _ attempt])
qed auto

lemma checkURL_URL:
  assumes "fst (checkURL cfg env ctx url) = Inr r"
  shows "URL r = url"
proof (cases "checkURL_loop cfg env ctx url 0 None")
  case (Pair x tr)
  show ?thesis
  proof (cases x)
    case (Returned r')
    with Pair assms checkURL_loop_URL [of cfg env ctx url 0 None] show ?thesis
      by (simp add: checkURL_def)
  next
    case (LoopEnded le)
    with Pair assms show ?thesis
      by (cases le) (auto simp: checkURL_def)
  qed
qed

lemma checkURL_no_panic: 
  assumes "0 \<le> MaxRetries cfg"
  shows "\<exists>r. fst (checkURL cfg env ctx url) = Inr r"
proof (cases "checkURL_loop cfg env ctx url 0 None")
  case (Pair x tr)
  show ?thesis
  proof (cases x)
    case (Returned r)
    with Pair show ?thesis by (simp add: checkURL_def)
  next
    case (LoopEnded le)
    with Pair assms checkURL_loop_ended [of cfg env ctx url 0 None]
    obtain e where "le = Some e" by auto
    with Pair LoopEnded show ?thesis by (simp add: checkURL_def)
  qed
qed

lemma reaches_attemptD:
  "reaches_attempt cfg env a \<Longrightarrow>
     0 \<le> a \<and> a \<le> MaxRetries cfg \<and> (\<forall>j. 0 \<le> j \<and> j < a \<longrightarrow> is_failure (outcome env j))"
  by (auto simp: reaches_attempt_def list_all_iff)

lemma checkURL_loop_from_start:
  assumes "reaches_attempt cfg env a"
  shows "\<exists>le. checkURL_loop cfg env ctx url 0 None =
     apsnd ((@) (failed_attempts cfg env ctx url 0 a)) (checkURL_loop cfg env ctx url a le)"
  using reaches_attemptD [OF assms] by (intro checkURL_loop_skip) auto

lemma backoff_ns:
  assumes "0 \<le> a" "a < 18446744073"
  shows "sint (backoff a) = (a + 1) * 500000000"
proof -
  have "backoff a = word_of_int ((a + 1) * 500000000)"
    by (simp add: backoff_def Millisecond_def)
  moreover have "sint (word_of_int ((a + 1) * 500000000) :: 64 word) = (a + 1) * 500000000"
    using assms by (intro sint_word64_of_int) simp_all
  ultimately show ?thesis by simp
qed

text \<open>
  Claim C6. \<open>normalizeURL\<close> is a total function on strings: a string that begins with
  \<^verbatim>\<open>http://\<close> or \<^verbatim>\<open>https://\<close> is returned unchanged, any other string gets \<^verbatim>\<open>https://\<close>
  in front. Applying it twice gives the same string as applying it once.
\<close>

theorem C6_normalizeURL:
  "normalizeURL raw =
     (if prefix ''http://'' raw \<or> prefix ''https://'' raw then raw else ''https://'' @ raw)
   \<and> normalizeURL (normalizeURL raw) = normalizeURL raw"
  by (simp add: normalizeURL_def HasPrefix_iff_prefix)

text \<open>The two branches and idempotence on \<^verbatim>\<open>example.com\<close> and \<^verbatim>\<open>http://example.com\<close>.\<close>

theorem C6_normalizeURL_witness:
  "normalizeURL ''example.com'' = ''https://example.com''
   \<and> normalizeURL ''http://example.com'' = ''http://example.com''
   \<and> normalizeURL (normalizeURL ''example.com'') = normalizeURL ''example.com''"
  using C6_normalizeURL [of "''example.com''"] C6_normalizeURL [of "''http://example.com''"]
  by (simp add: normalizeURL_def HasPrefix_def)

text \<open>
  Claim C3 says that the attempts-used field of a \<open>Result\<close> is the number of attempts
  performed, between 1 and \<^verbatim>\<open>maxRetries + 1\<close>. With the default configuration and a server
  that answers 200 at once, \<open>checkURL\<close> performs one attempt and returns \<open>Retries = 0\<close>; with
  a server that refuses every connection, it returns \<open>Retries = 1\<close>, not \<^verbatim>\<open>maxRetries + 1\<close> = 2.
\<close>

theorem C3_counterexample:
  "checkURL default_config (always_responds 200) 0 ''https://example.com'' =
     (Inr \<lparr>URL = ''https://example.com'', Status = ''success'', StatusCode = 200, Error = [],
            Duration = 100 * Millisecond, Timestamp = 0, Retries = 0\<rparr>,
      [NewRequestWithContext 0 ''https://example.com'', ClientDo ''HealthChecker/1.0'', CopyN 4096])
   \<and> attempts [NewRequestWithContext 0 ''https://example.com'', ClientDo ''HealthChecker/1.0'',
        CopyN 4096] = 1
   \<and> MaxRetries default_config + 1 = 2
   \<and> fst (checkURL default_config never_connects 0 ''https://example.com'') =
       Inr \<lparr>URL = ''https://example.com'', Status = ''error'', StatusCode = 0,
              Error = ''connection refused'', Duration = 1500 * Millisecond, Timestamp = 0,
              Retries = 1\<rparr>"
  by (simp add: checkURL_def loop_unfold default_config_def always_responds_def
      never_connects_def)

text \<open>
  Claim C3, as the code has it. For \<^verbatim>\<open>Retries\<close> \<open>\<ge> 0\<close> in the configuration, \<open>checkURL\<close>
  returns a \<open>Result\<close> whose field \<open>Retries\<close> is the number of attempts performed minus one
  (the zero-based index of the last attempt), between 0 and the configured \<^verbatim>\<open>Retries\<close>. When
  no attempt receives a response, it equals the configured \<^verbatim>\<open>Retries\<close> and the status is
  \<^verbatim>\<open>error\<close>. When the first attempt fails and the second receives a status below 400 (with
  the configured \<^verbatim>\<open>Retries\<close> \<open>\<ge> 1\<close>), it equals 1 and the status is \<^verbatim>\<open>success\<close>.
\<close>

theorem C3_retries_field:
  assumes "0 \<le> MaxRetries cfg"
  shows "\<exists>r. fst (checkURL cfg env ctx url) = Inr r
    \<and> Retries r = attempts (snd (checkURL cfg env ctx url)) - 1
    \<and> 0 \<le> Retries r \<and> Retries r \<le> MaxRetries cfg
    \<and> ((\<forall>j. 0 \<le> j \<and> j \<le> MaxRetries cfg \<longrightarrow> is_failure (outcome env j)) \<longrightarrow>
          Retries r = MaxRetries cfg \<and> Status r = ''error'')
    \<and> (1 \<le> MaxRetries cfg \<and> is_failure (outcome env 0) \<and>
         (\<exists>code. code < 400 \<and> outcome env 1 = Responds code) \<longrightarrow>
          Retries r = 1 \<and> Status r = ''success'')"
proof (cases "checkURL_loop cfg env ctx url 0 None")
  case (Pair x tr')
  from checkURL_loop_attempts [of cfg env ctx url 0 None] Pair assms(1)
  have att: "case x of
      Returned r \<Rightarrow> attempts tr' = Retries r + 1 - 0 \<and> 0 \<le> Retries r \<and> Retries r \<le> MaxRetries cfg
    | LoopEnded le \<Rightarrow> attempts tr' = MaxRetries cfg + 1 - 0"
    by simp
  have once: "Retries r = 1 \<and> Status r = ''success''"
    if "x = Returned r" "1 \<le> MaxRetries cfg" "is_failure (outcome env 0)"
      "code < 400" "outcome env 1 = Responds code" for r code
  proof -
    have "reaches_attempt cfg env 1"
      using that by (simp add: reaches_attempt_def)
    from checkURL_loop_from_start [OF this, of ctx url] that Pair
    show ?thesis
      by (auto simp: loop_unfold)
  qed
  have ended: "False"
    if "x = LoopEnded le" "1 \<le> MaxRetries cfg" "is_failure (outcome env 0)"
      "outcome env 1 = Responds code" for le code
  proof -
    have "reaches_attempt cfg env 1"
      using that by (simp add: reaches_attempt_def)
    from checkURL_loop_from_start [OF this, of ctx url] that Pair
    show ?thesis
      by (auto simp: loop_unfold)
  qed
  show ?thesis
  proof (cases x)
    case (Returned r)
    with Pair have "fst (checkURL cfg env ctx url) = Inr r" "snd (checkURL cfg env ctx url) = tr'"
      by (simp_all add: checkURL_def)
    moreover from att Returned
    have "Retries r = attempts tr' - 1" "0 \<le> Retries r" "Retries r \<le> MaxRetries cfg"
      by simp_all
    moreover have "Retries r = MaxRetries cfg \<and> Status r = ''error''"
      if "\<forall>j. 0 \<le> j \<and> j \<le> MaxRetries cfg \<longrightarrow> is_failure (outcome env j)"
      using checkURL_loop_all_fail [of cfg env ctx url 0 None] that Pair Returned by simp
    ultimately show ?thesis
      using once [OF Returned] by auto
  next
    case (LoopEnded le)
    with Pair assms(1) checkURL_loop_ended [of cfg env ctx url 0 None]
    obtain e where le: "le = Some e" by auto
    with Pair LoopEnded
    have res: "fst (checkURL cfg env ctx url) =
        Inr \<lparr>URL = url, Status = ''error'', StatusCode = 0, Error = e,
           Duration = since_start env, Timestamp = time_now env, Retries = MaxRetries cfg\<rparr>"
      and tr: "snd (checkURL cfg env ctx url) = tr'"
      by (simp_all add: checkURL_def)
    from att LoopEnded have "attempts tr' = MaxRetries cfg + 1" by simp
    with res tr assms(1) ended [OF LoopEnded] show ?thesis
      by auto
  qed
qed

text \<open>One refused connection, then a 200: two attempts, \<open>Retries = 1\<close>, \<^verbatim>\<open>success\<close>.\<close>

theorem C3_retries_field_witness:
  "\<exists>r. fst (checkURL default_config fails_once 0 ''https://example.com'') = Inr r
     \<and> Retries r = 1 \<and> Status r = ''success''
     \<and> attempts (snd (checkURL default_config fails_once 0 ''https://example.com'')) = 2"
proof -
  have "0 \<le> MaxRetries default_config"
    by (simp add: default_config_def)
  from C3_retries_field [OF this, of fails_once 0 "''https://example.com''"]
  obtain r where r: "fst (checkURL default_config fails_once 0 ''https://example.com'') = Inr r"
    "Retries r = attempts (snd (checkURL default_config fails_once 0 ''https://example.com'')) - 1"
    "1 \<le> MaxRetries default_config \<and> is_failure (outcome fails_once 0) \<and>
         (\<exists>code. code < 400 \<and> outcome fails_once 1 = Responds code) \<longrightarrow>
          Retries r = 1 \<and> Status r = ''success''"
    by blast
  have "1 \<le> MaxRetries default_config \<and> is_failure (outcome fails_once 0) \<and>
         (\<exists>code. code < 400 \<and> outcome fails_once 1 = Responds code)"
    by (simp add: default_config_def fails_once_def)
  with r show ?thesis by auto
qed

text \<open>
  Claim C4. When the loop reaches attempt \<open>a\<close> and that attempt receives a response with
  status \<open>code\<close>, \<open>checkURL\<close> returns at once: the status is \<^verbatim>\<open>error\<close> for \<open>code \<ge> 400\<close> and
  \<^verbatim>\<open>success\<close> below, the status code is \<open>code\<close>, the error message is empty, and the trace
  ends with this attempt's request and body read. A 404 on the first attempt gives exactly
  one attempt and an \<^verbatim>\<open>error\<close> result with status code 404.
\<close>

theorem C4_response_classified:
  "(reaches_attempt cfg env a \<and> outcome env a = Responds code \<longrightarrow>
      checkURL cfg env ctx url =
        (Inr \<lparr>URL = url, Status = (if code \<ge> 400 then ''error'' else ''success''),
               StatusCode = code, Error = [],
               Duration = since_start env, Timestamp = time_now env, Retries = a\<rparr>,
         failed_attempts cfg env ctx url 0 a @
           [NewRequestWithContext ctx url, ClientDo (UserAgent cfg), CopyN 4096]))
   \<and> (0 \<le> MaxRetries cfg \<and> outcome env 0 = Responds 404 \<longrightarrow>
        (\<exists>r tr. checkURL cfg env ctx url = (Inr r, tr) \<and> Status r = ''error''
           \<and> StatusCode r = 404 \<and> Error r = [] \<and> attempts tr = 1))"
proof (intro conjI impI)
  assume h: "reaches_attempt cfg env a \<and> outcome env a = Responds code"
  then have a: "a \<le> MaxRetries cfg"
    by (simp add: reaches_attempt_def)
  from h checkURL_loop_from_start [of cfg env a ctx url]
  obtain le where "checkURL_loop cfg env ctx url 0 None =
      apsnd ((@) (failed_attempts cfg env ctx url 0 a)) (checkURL_loop cfg env ctx url a le)"
    by blast
  with h a show "checkURL cfg env ctx url =
        (Inr \<lparr>URL = url, Status = (if code \<ge> 400 then ''error'' else ''success''),
               StatusCode = code, Error = [],
               Duration = since_start env, Timestamp = time_now env, Retries = a\<rparr>,
         failed_attempts cfg env ctx url 0 a @
           [NewRequestWithContext ctx url, ClientDo (UserAgent cfg), CopyN 4096])"
    by (simp add: checkURL_def loop_unfold)
next
  assume "0 \<le> MaxRetries cfg \<and> outcome env 0 = Responds 404"
  then show "\<exists>r tr. checkURL cfg env ctx url = (Inr r, tr) \<and> Status r = ''error''
           \<and> StatusCode r = 404 \<and> Error r = [] \<and> attempts tr = 1"
    by (simp add: checkURL_def loop_unfold)
qed

text \<open>A 404 at once, and a 200 after one refused connection.\<close>

theorem C4_response_classified_witness:
  "checkURL default_config (always_responds 404) 0 ''https://example.com/missing'' =
     (Inr \<lparr>URL = ''https://example.com/missing'', Status = ''error'', StatusCode = 404, Error = [],
            Duration = 100 * Millisecond, Timestamp = 0, Retries = 0\<rparr>,
      [NewRequestWithContext 0 ''https://example.com/missing'', ClientDo ''HealthChecker/1.0'',
       CopyN 4096])
   \<and> checkURL default_config fails_once 0 ''https://example.com'' =
     (Inr \<lparr>URL = ''https://example.com'', Status = ''success'', StatusCode = 200, Error = [],
            Duration = 600 * Millisecond, Timestamp = 0, Retries = 1\<rparr>,
      [NewRequestWithContext 0 ''https://example.com'', ClientDo ''HealthChecker/1.0'',
       Sleep (500 * Millisecond),
       NewRequestWithContext 0 ''https://example.com'', ClientDo ''HealthChecker/1.0'', CopyN 4096])"
proof -
  have r0: "reaches_attempt default_config (always_responds 404) 0
      \<and> outcome (always_responds 404) 0 = Responds 404"
    by (simp add: reaches_attempt_def default_config_def always_responds_def)
  have r1: "reaches_attempt default_config fails_once 1 \<and> outcome fails_once 1 = Responds 200"
    by (simp add: reaches_attempt_def default_config_def fails_once_def)
  from r0 r1
    C4_response_classified [of default_config "always_responds 404" 0 404 0
      "''https://example.com/missing''"]
    C4_response_classified [of default_config fails_once 1 200 0 "''https://example.com''"]
  show ?thesis
    by (simp add: failed_attempts_def failed_attempt_def default_config_def always_responds_def
        fails_once_def backoff_def upto.simps)
qed

text \<open>
  Claim C5 says that after a request-construction failure on an attempt before the last,
  the worker sleeps and then retries. With the default configuration (one retry) and a URL
  no request can be built for, the trace of \<open>checkURL\<close> is two request constructions and no
  sleep.
\<close>

theorem C5_counterexample:
  "checkURL default_config never_builds 0 ''https://%zz'' =
     (Inr \<lparr>URL = ''https://%zz'', Status = ''error'', StatusCode = 0,
            Error = ''invalid URL escape'', Duration = 0, Timestamp = 0, Retries = 1\<rparr>,
      [NewRequestWithContext 0 ''https://%zz'', NewRequestWithContext 0 ''https://%zz''])"
  by (simp add: checkURL_def loop_unfold default_config_def never_builds_def)

text \<open>
  Claim C5, as the code has it. Let the loop reach attempt \<open>a\<close>. If \<^verbatim>\<open>hc.client.Do\<close> fails
  there with message \<open>err\<close>: on the last allowed attempt \<open>checkURL\<close> returns an \<^verbatim>\<open>error\<close>
  result with that message at once; on an earlier attempt it sleeps
  \<^verbatim>\<open>Duration(a+1) * 500 * Millisecond\<close> and then starts the next attempt. If building the
  request fails there: on an earlier attempt the next attempt starts at once, with no sleep;
  on the last attempt the loop ends and the fallback \<^verbatim>\<open>return\<close> gives an \<^verbatim>\<open>error\<close> result with
  that message. The events of the attempts follow one another in the trace. The sleep is
  \<open>(a + 1) * 500\<close> milliseconds as a number for every \<open>a\<close> below 18446744073, where the
  \<^verbatim>\<open>Duration\<close> product does not wrap.
\<close>

theorem C5_transport_failure:
  "reaches_attempt cfg env a \<longrightarrow>
     (outcome env a = DoFails err \<and> a = MaxRetries cfg \<longrightarrow>
        checkURL cfg env ctx url =
          (Inr \<lparr>URL = url, Status = ''error'', StatusCode = 0, Error = err,
                 Duration = since_start env, Timestamp = time_now env, Retries = a\<rparr>,
           failed_attempts cfg env ctx url 0 a @
             [NewRequestWithContext ctx url, ClientDo (UserAgent cfg)]))
   \<and> (outcome env a = DoFails err \<and> a < MaxRetries cfg \<longrightarrow>
        (\<exists>rest. snd (checkURL cfg env ctx url) =
           failed_attempts cfg env ctx url 0 a @
             [NewRequestWithContext ctx url, ClientDo (UserAgent cfg),
              Sleep (word_of_int (a + 1) * 500 * Millisecond),
              NewRequestWithContext ctx url] @ rest))
   \<and> (outcome env a = NewRequestFails err \<and> a < MaxRetries cfg \<longrightarrow>
        (\<exists>rest. snd (checkURL cfg env ctx url) =
           failed_attempts cfg env ctx url 0 a @
             [NewRequestWithContext ctx url, NewRequestWithContext ctx url] @ rest))
   \<and> (outcome env a = NewRequestFails err \<and> a = MaxRetries cfg \<longrightarrow>
        checkURL cfg env ctx url =
          (Inr \<lparr>URL = url, Status = ''error'', StatusCode = 0, Error = err,
                 Duration = since_start env, Timestamp = time_now env,
                 Retries = MaxRetries cfg\<rparr>,
           failed_attempts cfg env ctx url 0 a @ [NewRequestWithContext ctx url]))
   \<and> (a < 18446744073 \<longrightarrow> sint (word_of_int (a + 1) * 500 * Millisecond :: duration)
          = (a + 1) * 500 * 1000000)"
proof
  assume reach: "reaches_attempt cfg env a"
  then have a: "0 \<le> a" "a \<le> MaxRetries cfg"
    by (simp_all add: reaches_attempt_def)
  from checkURL_loop_from_start [OF reach, of ctx url]
  obtain le where skip: "checkURL_loop cfg env ctx url 0 None =
      apsnd ((@) (failed_attempts cfg env ctx url 0 a)) (checkURL_loop cfg env ctx url a le)"
    by blast
  have snd_checkURL: "snd (checkURL cfg env ctx url) = snd (checkURL_loop cfg env ctx url 0 None)"
    by (simp add: checkURL_def split: prod.split loop_exit.split option.split)
  have last_Do: "checkURL cfg env ctx url =
          (Inr \<lparr>URL = url, Status = ''error'', StatusCode = 0, Error = err,
                 Duration = since_start env, Timestamp = time_now env, Retries = a\<rparr>,
           failed_attempts cfg env ctx url 0 a @
             [NewRequestWithContext ctx url, ClientDo (UserAgent cfg)])"
    if h: "outcome env a = DoFails err \<and> a = MaxRetries cfg"
  proof -
    from h have "checkURL_loop cfg env ctx url a le =
        (Returned \<lparr>URL = url, Status = ''error'', StatusCode = 0, Error = err,
           Duration = since_start env, Timestamp = time_now env, Retries = a\<rparr>,
         [NewRequestWithContext ctx url, ClientDo (UserAgent cfg)])"
      by (intro loop_DoFails_last) auto
    with skip show ?thesis
      by (simp add: checkURL_def)
  qed
  have retry_Do: "\<exists>rest. snd (checkURL cfg env ctx url) =
           failed_attempts cfg env ctx url 0 a @
             [NewRequestWithContext ctx url, ClientDo (UserAgent cfg),
              Sleep (word_of_int (a + 1) * 500 * Millisecond),
              NewRequestWithContext ctx url] @ rest"
    if h: "outcome env a = DoFails err \<and> a < MaxRetries cfg"
  proof -
    from h have "a + 1 \<le> MaxRetries cfg" by simp
    from checkURL_loop_starts [OF this, of env ctx url "Some err"]
    obtain rest where "snd (checkURL_loop cfg env ctx url (a + 1) (Some err)) =
        NewRequestWithContext ctx url # rest" ..
    with h skip show ?thesis
      by (simp add: snd_checkURL loop_unfold backoff_def)
  qed
  have retry_New: "\<exists>rest. snd (checkURL cfg env ctx url) =
           failed_attempts cfg env ctx url 0 a @
             [NewRequestWithContext ctx url, NewRequestWithContext ctx url] @ rest"
    if h: "outcome env a = NewRequestFails err \<and> a < MaxRetries cfg"
  proof -
    from h have "a + 1 \<le> MaxRetries cfg" by simp
    from checkURL_loop_starts [OF this, of env ctx url "Some err"]
    obtain rest where "snd (checkURL_loop cfg env ctx url (a + 1) (Some err)) =
        NewRequestWithContext ctx url # rest" ..
    with h skip show ?thesis
      by (simp add: snd_checkURL loop_unfold)
  qed
  have last_New: "checkURL cfg env ctx url =
          (Inr \<lparr>URL = url, Status = ''error'', StatusCode = 0, Error = err,
                 Duration = since_start env, Timestamp = time_now env,
                 Retries = MaxRetries cfg\<rparr>,
           failed_attempts cfg env ctx url 0 a @ [NewRequestWithContext ctx url])"
    if h: "outcome env a = NewRequestFails err \<and> a = MaxRetries cfg"
  proof -
    from h a have "checkURL_loop cfg env ctx url a le =
        apsnd ((@) [NewRequestWithContext ctx url])
          (checkURL_loop cfg env ctx url (a + 1) (Some err))"
      by (intro loop_NewRequestFails) auto
    moreover from h have "checkURL_loop cfg env ctx url (a + 1) (Some err) =
        (LoopEnded (Some err), [])"
      by (intro loop_exit) auto
    ultimately show ?thesis
      using skip h by (simp add: checkURL_def)
  qed
  have ns: "sint (word_of_int (a + 1) * 500 * Millisecond :: duration) = (a + 1) * 500 * 1000000"
    if "a < 18446744073"
    using backoff_ns [OF a(1) that] by (simp add: backoff_def)
  from last_Do retry_Do retry_New last_New ns
  show "(outcome env a = DoFails err \<and> a = MaxRetries cfg \<longrightarrow>
        checkURL cfg env ctx url =
          (Inr \<lparr>URL = url, Status = ''error'', StatusCode = 0, Error = err,
                 Duration = since_start env, Timestamp = time_now env, Retries = a\<rparr>,
           failed_attempts cfg env ctx url 0 a @
             [NewRequestWithContext ctx url, ClientDo (UserAgent cfg)]))
   \<and> (outcome env a = DoFails err \<and> a < MaxRetries cfg \<longrightarrow>
        (\<exists>rest. snd (checkURL cfg env ctx url) =
           failed_attempts cfg env ctx url 0 a @
             [NewRequestWithContext ctx url, ClientDo (UserAgent cfg),
              Sleep (word_of_int (a + 1) * 500 * Millisecond),
              NewRequestWithContext ctx url] @ rest))
   \<and> (outcome env a = NewRequestFails err \<and> a < MaxRetries cfg \<longrightarrow>
        (\<exists>rest. snd (checkURL cfg env ctx url) =
           failed_attempts cfg env ctx url 0 a @
             [NewRequestWithContext ctx url, NewRequestWithContext ctx url] @ rest))
   \<and> (outcome env a = NewRequestFails err \<and> a = MaxRetries cfg \<longrightarrow>
        checkURL cfg env ctx url =
          (Inr \<lparr>URL = url, Status = ''error'', StatusCode = 0, Error = err,
                 Duration = since_start env, Timestamp = time_now env,
                 Retries = MaxRetries cfg\<rparr>,
           failed_attempts cfg env ctx url 0 a @ [NewRequestWithContext ctx url]))
   \<and> (a < 18446744073 \<longrightarrow> sint (word_of_int (a + 1) * 500 * Millisecond :: duration)
          = (a + 1) * 500 * 1000000)"
    by blast
qed

text \<open>Two refused connections under the default configuration: one sleep of 500 ms.\<close>

theorem C5_transport_failure_witness:
  "checkURL default_config never_connects 0 ''https://example.com'' =
     (Inr \<lparr>URL = ''https://example.com'', Status = ''error'', StatusCode = 0,
            Error = ''connection refused'', Duration = 1500 * Millisecond, Timestamp = 0,
            Retries = 1\<rparr>,
      [NewRequestWithContext 0 ''https://example.com'', ClientDo ''HealthChecker/1.0'',
       Sleep (500 * Millisecond),
       NewRequestWithContext 0 ''https://example.com'', ClientDo ''HealthChecker/1.0''])
   \<and> (\<exists>rest. snd (checkURL default_config never_connects 0 ''https://example.com'') =
       [NewRequestWithContext 0 ''https://example.com'', ClientDo ''HealthChecker/1.0'',
        Sleep (500 * Millisecond), NewRequestWithContext 0 ''https://example.com''] @ rest)
   \<and> sint (500 * Millisecond :: duration) = 500000000"
proof -
  have r0: "reaches_attempt default_config never_connects 0"
    and o0: "outcome never_connects 0 = DoFails ''connection refused'' \<and> 0 < MaxRetries default_config"
    and r1: "reaches_attempt default_config never_connects 1"
    and o1: "outcome never_connects 1 = DoFails ''connection refused'' \<and> 1 = MaxRetries default_config"
    by (simp_all add: reaches_attempt_def default_config_def never_connects_def)
  from r0 o0 r1 o1
    C5_transport_failure [of default_config never_connects 0 "''connection refused''" 0
      "''https://example.com''"]
    C5_transport_failure [of default_config never_connects 1 "''connection refused''" 0
      "''https://example.com''"]
  show ?thesis
    by (simp add: failed_attempts_def failed_attempt_def default_config_def never_connects_def
        backoff_def upto.simps)
qed

text \<open>
  Claim C10. With the configured \<^verbatim>\<open>Retries\<close> \<open>\<ge> 0\<close>, \<open>checkURL\<close> never panics, and whenever the
  loop ends without a \<^verbatim>\<open>return\<close>, \<^verbatim>\<open>lastErr\<close> is the error of a request-construction failure in
  the last iteration, hence not nil. With the configured \<^verbatim>\<open>Retries\<close> \<open>< 0\<close> the body never
  runs, the loop ends with \<^verbatim>\<open>lastErr\<close> nil, and the fallback \<^verbatim>\<open>return\<close> dereferences nil.
\<close>

theorem C10_fallback_lastErr:
  "(0 \<le> MaxRetries cfg \<longrightarrow>
      (\<exists>r. fst (checkURL cfg env ctx url) = Inr r)
      \<and> (\<forall>le tr. checkURL_loop cfg env ctx url 0 None = (LoopEnded le, tr) \<longrightarrow>
            (\<exists>e. le = Some e \<and> outcome env (MaxRetries cfg) = NewRequestFails e)))
   \<and> (MaxRetries cfg < 0 \<longrightarrow>
        checkURL_loop cfg env ctx url 0 None = (LoopEnded None, [])
        \<and> checkURL cfg env ctx url = (Inl NilPointerDereference, []))"
proof (intro conjI impI allI)
  assume "0 \<le> MaxRetries cfg"
  then show "\<exists>r. fst (checkURL cfg env ctx url) = Inr r"
    by (rule checkURL_no_panic)
next
  fix le tr
  assume "0 \<le> MaxRetries cfg" "checkURL_loop cfg env ctx url 0 None = (LoopEnded le, tr)"
  with checkURL_loop_ended [of cfg env ctx url 0 None]
  show "\<exists>e. le = Some e \<and> outcome env (MaxRetries cfg) = NewRequestFails e"
    by simp
next
  assume neg: "MaxRetries cfg < 0"
  then show "checkURL_loop cfg env ctx url 0 None = (LoopEnded None, [])"
    by (simp add: loop_unfold)
  from neg show "checkURL cfg env ctx url = (Inl NilPointerDereference, [])"
    by (simp add: checkURL_def loop_unfold)
qed

text \<open>A URL no request can be built for, and a configuration with \<^verbatim>\<open>Retries\<close> = -1.\<close>

theorem C10_fallback_lastErr_witness:
  "checkURL_loop default_config never_builds 0 ''https://%zz'' 0 None =
     (LoopEnded (Some ''invalid URL escape''),
      [NewRequestWithContext 0 ''https://%zz'', NewRequestWithContext 0 ''https://%zz''])
   \<and> outcome never_builds (MaxRetries default_config) = NewRequestFails ''invalid URL escape''
   \<and> (\<exists>r. fst (checkURL default_config never_builds 0 ''https://%zz'') = Inr r)
   \<and> checkURL (default_config\<lparr>MaxRetries := - 1\<rparr>) (always_responds 200) 0 ''https://example.com''
       = (Inl NilPointerDereference, [])"
proof -
  have run: "checkURL_loop default_config never_builds 0 ''https://%zz'' 0 None =
     (LoopEnded (Some ''invalid URL escape''),
      [NewRequestWithContext 0 ''https://%zz'', NewRequestWithContext 0 ''https://%zz''])"
    by (simp add: loop_unfold default_config_def never_builds_def)
  have pos: "0 \<le> MaxRetries default_config"
    and neg: "MaxRetries (default_config\<lparr>MaxRetries := - 1\<rparr>) < 0"
    by (simp_all add: default_config_def)
  from run pos neg
    C10_fallback_lastErr [of default_config never_builds 0 "''https://%zz''"]
    C10_fallback_lastErr [of "default_config\<lparr>MaxRetries := - 1\<rparr>" "always_responds 200" 0
      "''https://example.com''"]
  show ?thesis
    by (simp add: never_builds_def default_config_def)
qed

section \<open>Properties of CheckAll\<close>

lemma sum_list_map_update:
  fixes f :: "'a \<Rightarrow> 'b::comm_monoid_add"
  shows "i < length xs \<Longrightarrow>
    sum_list (map f (xs[i := y])) + f (xs ! i) = sum_list (map f xs) + f y"
proof (induction xs arbitrary: i)
  case Nil
  then show ?case by simp
next
  case (Cons a xs)
  show ?case
  proof (cases i)
    case 0
    then show ?thesis by (simp add: ac_simps)
  next
    case (Suc j)
    with Cons.prems have "j < length xs" by simp
    from Cons.IH [OF this] Suc show ?thesis
      by (simp add: add.assoc)
  qed
qed

lemma sum_list_map_update_nat:
  fixes f :: "'a \<Rightarrow> nat"
  assumes "i < length xs"
  shows "sum_list (map f (xs[i := y])) = sum_list (map f xs) + f y - f (xs ! i)"
  using sum_list_map_update [OF assms, of f y] by simp

lemma sum_list_map_update_mset:
  fixes f :: "'a \<Rightarrow> 'b multiset"
  assumes "i < length xs"
  shows "sum_list (map f (xs[i := y])) = sum_list (map f xs) + f y - f (xs ! i)"
  using sum_list_map_update [OF assms, of f y]
  by (metis add_diff_cancel_right')

lemma step_length_workers: "step hc s s' \<Longrightarrow> length (workers s') = length (workers s)"
  by (induction rule: step.induct) simp_all

lemma step_urlChan_cap: "step hc s s' \<Longrightarrow> urlChan_cap s' = urlChan_cap s"
  by (induction rule: step.induct) simp_all

lemma step_ctx_deadline: "step hc s s' \<Longrightarrow> ctx_deadline s' = ctx_deadline s"
  by (induction rule: step.induct) simp_all

lemma step_tokens_held:
  "step hc s s' \<Longrightarrow> semaphore s = tokens_held s \<Longrightarrow> semaphore s' = tokens_held s'"
  by (induction rule: step.induct) (simp_all add: tokens_held_def sum_list_map_update_nat)

text \<open>The 32-bit counter of the wait group.\<close>

lemma WaitGroup_Done_Inr:
  "WaitGroup_Add w (- 1) = Inr v \<longleftrightarrow> 0 \<le> sint (w - 1) \<and> v = w - 1"
  by (auto simp: WaitGroup_Add_def Let_def)

lemma WaitGroup_Done_Inl:
  "WaitGroup_Add w (- 1) = Inl p \<longleftrightarrow> sint (w - 1) < 0 \<and> p = NegativeWaitGroupCounter"
  by (auto simp: WaitGroup_Add_def Let_def)

lemma sint_word32_of_nat:
  assumes "n < 2 ^ 31"
  shows "sint (word_of_nat n :: 32 word) = int n"
proof -
  have "sint (word_of_int (int n) :: 32 word) = int n"
    using assms unfolding sint_sbintrunc' by (intro signed_take_bit_int_eq_self) simp_all
  then show ?thesis
    unfolding of_int_of_nat_eq .
qed

lemma word32_of_nat_eq_0:
  assumes "n < 2 ^ 31" "(word_of_nat n :: 32 word) = 0"
  shows "n = 0"
proof -
  from assms(2) have "sint (word_of_nat n :: 32 word) = 0" by simp
  with sint_word32_of_nat [OF assms(1)] show ?thesis by simp
qed

lemma WaitGroup_Done_running:
  assumes "0 < n" "n < 2 ^ 31"
  shows "WaitGroup_Add (word_of_nat n) (- 1) = Inr (word_of_nat (n - 1))"
proof -
  from assms(1) obtain m where n: "n = Suc m"
    by (cases n) simp_all
  with assms(2) have "m < 2 ^ 31" by simp
  from sint_word32_of_nat [OF this] n show ?thesis
    by (simp add: WaitGroup_Done_Inr)
qed

lemma running_le_length: "sum_list (map running ws) \<le> length ws"
proof (induction ws)
  case Nil
  show ?case by simp
next
  case (Cons w ws)
  then show ?case by (cases w) simp_all
qed

lemma step_wg:
  "step hc s s' \<Longrightarrow> wg s = word_of_nat (workers_running s) \<Longrightarrow>
   wg s' = word_of_nat (workers_running s')"
proof (induction rule: step.induct)
  case (worker_receive s i u us)
  with sum_list_map_update [of i "workers s" running "AtAcquire u"] show ?case
    by (simp add: workers_running_def)
next
  case (worker_exit s i counter)
  from worker_exit sum_list_map_update [of i "workers s" running Exited]
  have "workers_running s = Suc (sum_list (map running ((workers s)[i := Exited])))"
    by (simp add: workers_running_def)
  with worker_exit show ?case
    by (simp add: workers_running_def WaitGroup_Done_Inr)
next
  case (acquire s i u)
  with sum_list_map_update [of i "workers s" running "AtCheck u"] show ?case
    by (simp add: workers_running_def)
next
  case (check s i u env r)
  with sum_list_map_update [of i "workers s" running "AtSend r"] show ?case
    by (simp add: workers_running_def)
next
  case (send_result s i r)
  with sum_list_map_update [of i "workers s" running AtRelease] show ?case
    by (simp add: workers_running_def)
next
  case (release s i)
  with sum_list_map_update [of i "workers s" running AtRange] show ?case
    by (simp add: workers_running_def)
qed (simp_all add: workers_running_def)

lemma step_urls_of: "step hc s s' \<Longrightarrow> urls_of s' = urls_of s"
proof (induction rule: step.induct)
  case (worker_receive s i u us)
  with sum_list_map_update [of i "workers s" carries "AtAcquire u"] show ?case
    by (simp add: urls_of_def)
next
  case (worker_exit s i)
  with sum_list_map_update [of i "workers s" carries Exited] show ?case
    by (simp add: urls_of_def)
next
  case (acquire s i u)
  with sum_list_map_update [of i "workers s" carries "AtCheck u"] show ?case
    by (simp add: urls_of_def)
next
  case (check s i u env r)
  then have "URL r = u" by (intro checkURL_URL)
  with check sum_list_map_update [of i "workers s" carries "AtSend r"] show ?case
    by (simp add: urls_of_def)
next
  case (send_result s i r)
  with sum_list_map_update [of i "workers s" carries AtRelease, symmetric] show ?case
    by (simp add: urls_of_def)
next
  case (release s i)
  with sum_list_map_update [of i "workers s" carries AtRange] show ?case
    by (simp add: urls_of_def)
qed (simp_all add: urls_of_def)

lemma step_steps_left: "step hc s s' \<Longrightarrow> steps_left s' < steps_left s"
proof (induction rule: step.induct)
  case (worker_receive s i u us)
  with sum_list_map_update [of i "workers s" worker_steps "AtAcquire u"] show ?case
    by (simp add: steps_left_def)
next
  case (worker_exit s i)
  with sum_list_map_update [of i "workers s" worker_steps Exited] show ?case
    by (simp add: steps_left_def)
next
  case (acquire s i u)
  with sum_list_map_update [of i "workers s" worker_steps "AtCheck u"] show ?case
    by (simp add: steps_left_def)
next
  case (check s i u env r)
  with sum_list_map_update [of i "workers s" worker_steps "AtSend r"] show ?case
    by (simp add: steps_left_def)
next
  case (send_result s i r)
  with sum_list_map_update [of i "workers s" worker_steps AtRelease] show ?case
    by (simp add: steps_left_def)
next
  case (release s i)
  with sum_list_map_update [of i "workers s" worker_steps AtRange] show ?case
    by (simp add: steps_left_def)
qed (simp_all add: steps_left_def)

lemma step_room:
  "step hc s s' \<Longrightarrow> length (to_send s) + length (urlChan s) \<le> urlChan_cap s \<Longrightarrow>
   length (to_send s') + length (urlChan s') \<le> urlChan_cap s'"
  by (induction rule: step.induct) simp_all

lemma step_closed_sent:
  "step hc s s' \<Longrightarrow> (urlChan_closed s \<longrightarrow> to_send s = []) \<Longrightarrow>
   (urlChan_closed s' \<longrightarrow> to_send s' = [])"
  by (induction rule: step.induct) simp_all

lemma Exited_in_update:
  "Exited \<in> set (ws[i := w]) \<Longrightarrow> w \<noteq> Exited \<Longrightarrow> Exited \<in> set ws"
  using set_update_subset_insert [of ws i w] by auto

lemma step_exited:
  "step hc s s' \<Longrightarrow> (urlChan_closed s \<longrightarrow> to_send s = []) \<Longrightarrow>
   (Exited \<in> set (workers s) \<longrightarrow> urlChan_closed s \<and> urlChan s = []) \<Longrightarrow>
   (Exited \<in> set (workers s') \<longrightarrow> urlChan_closed s' \<and> urlChan s' = [])"
  by (induction rule: step.induct) (auto dest: Exited_in_update)

lemma step_results_closed:
  "step hc s s' \<Longrightarrow> (results_closed s \<longrightarrow> wg s = 0) \<Longrightarrow> (results_closed s' \<longrightarrow> wg s' = 0)"
  by (induction rule: step.induct) (auto simp: WaitGroup_Done_Inr)

lemma step_returned:
  "step hc s s' \<Longrightarrow> (returned s \<longrightarrow> results_closed s \<and> results s = []) \<Longrightarrow>
   (returned s' \<longrightarrow> results_closed s' \<and> results s' = [])"
  by (induction rule: step.induct) auto

lemma step_sched_inv:
  assumes st: "step hc s s'" and inv: "sched_inv hc now urls s"
  shows "sched_inv hc now urls s'"
proof -
  from inv have
    i1: "ctx_deadline s = now + sint (CheckAll_timeout hc urls)" and
    i2: "urlChan_cap s = length urls" and
    i3: "length (workers s) = nat (Concurrency (config hc))" and
    i4: "semaphore s = tokens_held s" and
    i5: "wg s = word_of_nat (workers_running s)" and
    i6: "urls_of s = mset (map normalizeURL urls)" and
    i7: "length (to_send s) + length (urlChan s) \<le> urlChan_cap s" and
    i8: "urlChan_closed s \<longrightarrow> to_send s = []" and
    i9: "Exited \<in> set (workers s) \<longrightarrow> urlChan_closed s \<and> urlChan s = []" and
    i10: "results_closed s \<longrightarrow> wg s = 0" and
    i11: "returned s \<longrightarrow> results_closed s \<and> results s = []"
    unfolding sched_inv_def by blast+
  show ?thesis
    unfolding sched_inv_def
  proof (intro conjI)
    show "ctx_deadline s' = now + sint (CheckAll_timeout hc urls)"
      using step_ctx_deadline [OF st] i1 by simp
    show "urlChan_cap s' = length urls"
      using step_urlChan_cap [OF st] i2 by simp
    show "length (workers s') = nat (Concurrency (config hc))"
      using step_length_workers [OF st] i3 by simp
    show "semaphore s' = tokens_held s'"
      by (rule step_tokens_held [OF st i4])
    show "wg s' = word_of_nat (workers_running s')"
      by (rule step_wg [OF st i5])
    show "urls_of s' = mset (map normalizeURL urls)"
      using step_urls_of [OF st] i6 by simp
    show "length (to_send s') + length (urlChan s') \<le> urlChan_cap s'"
      by (rule step_room [OF st i7])
    show "urlChan_closed s' \<longrightarrow> to_send s' = []"
      by (rule step_closed_sent [OF st i8])
    show "Exited \<in> set (workers s') \<longrightarrow> urlChan_closed s' \<and> urlChan s' = []"
      by (rule step_exited [OF st i8 i9])
    show "results_closed s' \<longrightarrow> wg s' = 0"
      by (rule step_results_closed [OF st i10])
    show "returned s' \<longrightarrow> results_closed s' \<and> results s' = []"
      by (rule step_returned [OF st i11])
  qed
qed

lemma CheckAll_init_Inr:
  assumes "CheckAll_init hc now urls = Inr s"
  shows "s = \<lparr>ctx_deadline = now + sint (CheckAll_timeout hc urls),
                to_send = urls,
                urlChan = [], urlChan_cap = length urls, urlChan_closed = False,
                workers = replicate (nat (Concurrency (config hc))) AtRange,
                semaphore = 0,
                results = [], results_closed = False,
                wg = word_of_int (Concurrency (config hc)),
                allResults = [], returned = False, panicked = None\<rparr>"
  using assms
  by (auto simp: CheckAll_init_def WaitGroup_Add_def Let_def split: sum.splits if_splits)

lemma CheckAll_init_starts:
  assumes "0 \<le> Concurrency (config hc)" "Concurrency (config hc) < 2 ^ 31"
  shows "\<exists>s. CheckAll_init hc now urls = Inr s"
proof -
  have "sint (word_of_int (Concurrency (config hc)) :: 32 word) = Concurrency (config hc)"
    using assms by (simp add: sint_sbintrunc' signed_take_bit_int_eq_self)
  with assms(1) show ?thesis
    by (simp add: CheckAll_init_def WaitGroup_Add_def)
qed

lemma init_sched_inv:
  assumes "CheckAll_init hc now urls = Inr s" and nonneg: "0 \<le> Concurrency (config hc)"
  shows "sched_inv hc now urls s"
proof -
  note s = CheckAll_init_Inr [OF assms(1)]
  have "sum_list (map holds_token (replicate n AtRange)) = 0"
    and "sum_list (map running (replicate n AtRange)) = n"
    and "sum_list (map carries (replicate n AtRange)) = {#}" for n
    by (induction n) simp_all
  with nonneg show ?thesis
    by (subst s) (simp add: sched_inv_def tokens_held_def urls_of_def workers_running_def)
qed

lemma reaches_sched_inv:
  assumes "0 \<le> Concurrency (config hc)"
  shows "CheckAll_reaches hc now urls s \<Longrightarrow> sched_inv hc now urls s"
proof (induction rule: CheckAll_reaches.induct)
  case (start s)
  then show ?case by (rule init_sched_inv [OF _ assms])
next
  case (after s s')
  from step_sched_inv [OF after(2) after(3)] show ?case .
qed

lemma reaches_ctx_deadline:
  "CheckAll_reaches hc now urls s \<Longrightarrow> ctx_deadline s = now + sint (CheckAll_timeout hc urls)"
proof (induction rule: CheckAll_reaches.induct)
  case (start s)
  from CheckAll_init_Inr [OF this] show ?case
    by (metis sched.select_convs(1))
next
  case (after s s')
  with step_ctx_deadline [OF after(2)] show ?case by simp
qed

lemma running_below:
  assumes inv: "sched_inv hc now urls s" and "Concurrency (config hc) < 2 ^ 31"
  shows "workers_running s < 2 ^ 31"
proof -
  from inv have "length (workers s) = nat (Concurrency (config hc))"
    unfolding sched_inv_def by blast
  with assms(2) have "length (workers s) < 2 ^ 31"
    by (simp add: nat_less_iff)
  with running_le_length [of "workers s"] show ?thesis
    by (simp add: workers_running_def)
qed

lemma NewHealthChecker_Inr:
  "NewHealthChecker c = Inr hc \<Longrightarrow>
     0 \<le> Concurrency (config hc) \<and> semaphore_cap hc = nat (Concurrency (config hc))
       \<and> results_cap hc = 100
       \<and> config hc = (case c of None \<Rightarrow> default_config | Some given \<Rightarrow> given)"
  by (auto simp: NewHealthChecker_def Let_def split: if_splits)

lemma sum_list_pos_member:
  fixes f :: "'a \<Rightarrow> nat"
  assumes "i < length xs" "0 < f (xs ! i)"
  shows "0 < sum_list (map f xs)"
proof -
  from assms(1) have "f (xs ! i) \<in> set (map f xs)" by simp
  then have "f (xs ! i) \<le> sum_list (map f xs)" by (auto intro: member_le_sum_list)
  with assms(2) show ?thesis by simp
qed

lemma holds_token_le_length: "sum_list (map holds_token ws) \<le> length ws"
proof (induction ws)
  case Nil
  show ?case by simp
next
  case (Cons w ws)
  then show ?case by (cases w) simp_all
qed


lemma tokens_below_length:
  assumes "i < length ws" "holds_token (ws ! i) = 0"
  shows "sum_list (map holds_token ws) < length ws"
proof -
  from sum_list_map_update [OF assms(1), of holds_token AtRelease] assms(2)
  have "sum_list (map holds_token (ws[i := AtRelease])) = sum_list (map holds_token ws) + 1"
    by simp
  moreover have "sum_list (map holds_token (ws[i := AtRelease])) \<le> length (ws[i := AtRelease])"
    by (rule holds_token_le_length)
  ultimately show ?thesis by simp
qed

lemma none_running:
  "sum_list (map running ws) = 0 \<Longrightarrow> set ws \<subseteq> {Exited} \<and> sum_list (map carries ws) = {#}"
proof (induction ws)
  case Nil
  show ?case by simp
next
  case (Cons w ws)
  then show ?case by (cases w) simp_all
qed

lemma some_running:
  "0 < sum_list (map running ws) \<Longrightarrow> \<exists>i<length ws. ws ! i \<noteq> Exited"
proof (induction ws)
  case Nil
  then show ?case by simp
next
  case (Cons w ws)
  show ?case
  proof (cases "w = Exited")
    case True
    with Cons obtain i where "i < length ws" "ws ! i \<noteq> Exited" by auto
    then have "Suc i < length (w # ws)" "(w # ws) ! Suc i \<noteq> Exited" by simp_all
    then show ?thesis by blast
  next
    case False
    then have "0 < length (w # ws)" "(w # ws) ! 0 \<noteq> Exited" by simp_all
    then show ?thesis by blast
  qed
qed

text \<open>
  No step panics when the configured \<^verbatim>\<open>Retries\<close> is not negative and the number of workers
  fits the counter of the wait group.
\<close>

lemma step_no_panic:
  assumes "step hc s s'" and inv: "sched_inv hc now urls s"
    and retries: "0 \<le> MaxRetries (config hc)"
    and fits: "Concurrency (config hc) < 2 ^ 31"
  shows "panicked s' = None"
proof -
  from inv have wg: "wg s = word_of_nat (workers_running s)"
    and closed: "results_closed s \<longrightarrow> wg s = 0"
    unfolding sched_inv_def by blast+
  note below = running_below [OF inv fits]
  from assms(1) show ?thesis
  proof (cases rule: step.cases)
    case (worker_exit_panic i p)
    then have "0 < workers_running s"
      unfolding workers_running_def by (intro sum_list_pos_member [of i]) simp_all
    from WaitGroup_Done_running [OF this below] wg worker_exit_panic show ?thesis by simp
  next
    case (check_panic i u env p)
    with checkURL_no_panic [OF retries, of env "ctx_deadline s" u] show ?thesis by simp
  next
    case (send_result_panic i r)
    then have "0 < workers_running s"
      unfolding workers_running_def by (intro sum_list_pos_member [of i]) simp_all
    moreover from send_result_panic closed wg have "(word_of_nat (workers_running s) :: 32 word) = 0"
      by simp
    from word32_of_nat_eq_0 [OF below this] have "workers_running s = 0" .
    ultimately show ?thesis by simp
  qed simp_all
qed

lemma reaches_no_panic:
  assumes "CheckAll_reaches hc now urls s" "0 \<le> MaxRetries (config hc)"
    "0 \<le> Concurrency (config hc)" "Concurrency (config hc) < 2 ^ 31"
  shows "panicked s = None"
  using assms(1)
proof (cases rule: CheckAll_reaches.cases)
  case start
  from CheckAll_init_Inr [OF this] show ?thesis
    by (metis sched.select_convs(13))
next
  case (after s0)
  from step_no_panic [OF after(2) reaches_sched_inv [OF assms(3) after(1)] assms(2) assms(4)]
  show ?thesis .
qed

text \<open>A call that has neither returned nor panicked can take a step.\<close>

lemma can_step:
  assumes inv: "sched_inv hc now urls s"
    and cap: "semaphore_cap hc = nat (Concurrency (config hc))" "0 < results_cap hc"
    and live: "panicked s = None" "\<not> returned s"
  shows "\<exists>s'. step hc s s'"
proof -
  from inv have
    i3: "length (workers s) = nat (Concurrency (config hc))" and
    i4: "semaphore s = tokens_held s" and
    i5: "wg s = word_of_nat (workers_running s)" and
    i7: "length (to_send s) + length (urlChan s) \<le> urlChan_cap s"
    unfolding sched_inv_def by blast+
  show ?thesis
  proof (cases "results s")
    case (Cons r rs)
    from step.collect [OF live this] show ?thesis ..
  next
    case Nil
    show ?thesis
    proof (cases "results_closed s")
      case True
      from step.return_allResults [OF live Nil this] show ?thesis ..
    next
      case not_yet: False
      show ?thesis
      proof (cases "wg s = 0")
        case True
        from step.close_results [OF live(1) this not_yet] show ?thesis ..
      next
        case False
        have "workers_running s \<noteq> 0"
        proof
          assume "workers_running s = 0"
          with i5 False show False by simp
        qed
        then have "0 < sum_list (map running (workers s))"
          unfolding workers_running_def by (simp only: neq0_conv)
        from some_running [OF this]
        obtain i where i: "i < length (workers s)" and w: "workers s ! i \<noteq> Exited" by blast
        show ?thesis
        proof (cases "workers s ! i")
          case AtRange
          show ?thesis
          proof (cases "urlChan s")
            case (Cons u us)
            from step.worker_receive [OF live(1) i AtRange this] show ?thesis ..
          next
            case empty: Nil
            show ?thesis
            proof (cases "urlChan_closed s")
              case closed: True
              show ?thesis
              proof (cases "WaitGroup_Add (wg s) (- 1)")
                case (Inl p)
                from step.worker_exit_panic [OF live(1) i AtRange empty closed this]
                show ?thesis ..
              next
                case (Inr counter)
                from step.worker_exit [OF live(1) i AtRange empty closed this]
                show ?thesis ..
              qed
            next
              case not_closed: False
              show ?thesis
              proof (cases "to_send s")
                case Nil
                from step.close_urlChan [OF live(1) this not_closed] show ?thesis ..
              next
                case (Cons u us)
                with i7 empty have "length (urlChan s) < urlChan_cap s" by simp
                from step.send_url [OF live(1) Cons this] show ?thesis ..
              qed
            qed
          qed
        next
          case (AtAcquire u)
          with tokens_below_length [OF i] i3 i4 cap
          have "semaphore s < semaphore_cap hc"
            by (simp add: tokens_held_def)
          from step.acquire [OF live(1) i AtAcquire this] show ?thesis ..
        next
          case (AtCheck u)
          show ?thesis
          proof (cases "fst (checkURL (config hc) (always_responds 200) (ctx_deadline s) u)")
            case (Inl p)
            from step.check_panic [OF live(1) i AtCheck this] show ?thesis ..
          next
            case (Inr r)
            from step.check [OF live(1) i AtCheck this] show ?thesis ..
          qed
        next
          case (AtSend r)
          from Nil cap have "length (results s) < results_cap hc" by simp
          from step.send_result [OF live(1) i AtSend not_yet this] show ?thesis ..
        next
          case AtRelease
          then have "0 < sum_list (map holds_token (workers s))"
            by (intro sum_list_pos_member [OF i]) simp
          with i4 have "0 < semaphore s"
            by (simp add: tokens_held_def)
          from step.release [OF live(1) i AtRelease this] show ?thesis ..
        next
          case Exited
          with w show ?thesis by simp
        qed
      qed
    qed
  qed
qed

text \<open>What a call with at least one worker returns.\<close>

lemma returned_results:
  assumes inv: "sched_inv hc now urls s" and "returned s" and "0 < Concurrency (config hc)"
    and fits: "Concurrency (config hc) < 2 ^ 31"
  shows "mset (map URL (allResults s)) = mset (map normalizeURL urls)"
proof -
  from inv have
    i3: "length (workers s) = nat (Concurrency (config hc))" and
    i5: "wg s = word_of_nat (workers_running s)" and
    i6: "urls_of s = mset (map normalizeURL urls)" and
    i8: "urlChan_closed s \<longrightarrow> to_send s = []" and
    i9: "Exited \<in> set (workers s) \<longrightarrow> urlChan_closed s \<and> urlChan s = []" and
    i10: "results_closed s \<longrightarrow> wg s = 0" and
    i11: "returned s \<longrightarrow> results_closed s \<and> results s = []"
    unfolding sched_inv_def by blast+
  from i11 assms(2) have res: "results s = []" and "results_closed s" by simp_all
  with i10 i5 have "(word_of_nat (workers_running s) :: 32 word) = 0" by simp
  from word32_of_nat_eq_0 [OF running_below [OF inv fits] this]
  have "sum_list (map running (workers s)) = 0"
    by (simp only: workers_running_def)
  from none_running [OF this]
  have all: "set (workers s) \<subseteq> {Exited}" and carried: "sum_list (map carries (workers s)) = {#}"
    by simp_all
  from i3 assms(3) have "workers s \<noteq> []" by auto
  with all have "Exited \<in> set (workers s)"
    by (cases "workers s") auto
  with i9 i8 have "urlChan s = []" "to_send s = []" by simp_all
  with res carried i6 show ?thesis
    by (simp add: urls_of_def)
qed

lemma idle_workers_update:
  "list_all (\<lambda>w. w = AtRange \<or> w = Exited) ws \<Longrightarrow> w = AtRange \<or> w = Exited \<Longrightarrow>
   list_all (\<lambda>w. w = AtRange \<or> w = Exited) (ws[i := w])"
  using set_update_subset_insert [of ws i w] by (auto simp: list_all_iff)

lemma idle_worker_nth:
  "list_all (\<lambda>w. w = AtRange \<or> w = Exited) ws \<Longrightarrow> i < length ws \<Longrightarrow>
   ws ! i = AtRange \<or> ws ! i = Exited"
  by (auto simp: list_all_iff)

lemma step_idle:
  assumes "step hc s s'" "idle s"
  shows "idle s'"
proof -
  from assms(2) have all: "list_all (\<lambda>w. w = AtRange \<or> w = Exited) (workers s)"
    and res: "results s = []" "allResults s = []"
    and chan: "workers s = [] \<or> (to_send s = [] \<and> urlChan s = [])"
    by (simp_all add: idle_def)
  from assms(1) show ?thesis
  proof (cases rule: step.cases)
    case (send_url u us)
    with all res chan show ?thesis by (auto simp: idle_def)
  next
    case close_urlChan
    with all res chan show ?thesis by (auto simp: idle_def)
  next
    case (worker_receive i u us)
    with chan show ?thesis by auto
  next
    case (worker_exit i)
    with all res chan idle_workers_update [OF all, of Exited i] show ?thesis
      by (auto simp: idle_def)
  next
    case (worker_exit_panic i)
    with all res chan show ?thesis by (auto simp: idle_def)
  next
    case (acquire i u)
    with idle_worker_nth [OF all, of i] show ?thesis by simp
  next
    case (check i u env r)
    with idle_worker_nth [OF all, of i] show ?thesis by simp
  next
    case (check_panic i u env p)
    with idle_worker_nth [OF all, of i] show ?thesis by simp
  next
    case (send_result i r)
    with idle_worker_nth [OF all, of i] show ?thesis by simp
  next
    case (send_result_panic i r)
    with idle_worker_nth [OF all, of i] show ?thesis by simp
  next
    case (release i)
    with idle_worker_nth [OF all, of i] show ?thesis by simp
  next
    case close_results
    with all res chan show ?thesis by (auto simp: idle_def)
  next
    case (collect r rs)
    with res show ?thesis by simp
  next
    case return_allResults
    with all res chan show ?thesis by (auto simp: idle_def)
  qed
qed

lemma step_idle_no_panic:
  assumes "step hc s s'" "idle s" and inv: "sched_inv hc now urls s"
    and fits: "Concurrency (config hc) < 2 ^ 31"
  shows "panicked s' = None"
proof -
  from assms(2) have all: "list_all (\<lambda>w. w = AtRange \<or> w = Exited) (workers s)"
    by (simp add: idle_def)
  from inv have wg: "wg s = word_of_nat (workers_running s)"
    unfolding sched_inv_def by blast
  from assms(1) show ?thesis
  proof (cases rule: step.cases)
    case (worker_exit_panic i p)
    then have "0 < workers_running s"
      unfolding workers_running_def by (intro sum_list_pos_member [of i]) simp_all
    from WaitGroup_Done_running [OF this running_below [OF inv fits]] wg worker_exit_panic
    show ?thesis by simp
  next
    case (check_panic i u env p)
    with idle_worker_nth [OF all, of i] show ?thesis by simp
  next
    case (send_result_panic i r)
    with idle_worker_nth [OF all, of i] show ?thesis by simp
  qed simp_all
qed

lemma init_idle:
  assumes "CheckAll_init hc now urls = Inr s" "Concurrency (config hc) = 0 \<or> urls = []"
  shows "idle s"
proof -
  have "list_all (\<lambda>w. w = AtRange \<or> w = Exited) (replicate n AtRange)" for n
    by (simp add: list_all_iff)
  with assms(2) show ?thesis
    by (subst CheckAll_init_Inr [OF assms(1)]) (auto simp: idle_def)
qed

lemma reaches_idle:
  assumes "Concurrency (config hc) = 0 \<or> urls = []"
  shows "CheckAll_reaches hc now urls s \<Longrightarrow> idle s"
proof (induction rule: CheckAll_reaches.induct)
  case (start s)
  then show ?case by (rule init_idle [OF _ assms])
next
  case (after s s')
  from step_idle [OF after(2) after(3)] show ?case .
qed

lemma reaches_idle_no_panic:
  assumes "Concurrency (config hc) = 0 \<or> urls = []" "CheckAll_reaches hc now urls s"
    "0 \<le> Concurrency (config hc)" "Concurrency (config hc) < 2 ^ 31"
  shows "panicked s = None"
  using assms(2)
proof (cases rule: CheckAll_reaches.cases)
  case start
  from CheckAll_init_Inr [OF this] show ?thesis
    by (metis sched.select_convs(13))
next
  case (after s0)
  from step_idle_no_panic [OF after(2) reaches_idle [OF assms(1) after(1)]
      reaches_sched_inv [OF assms(3) after(1)] assms(4)]
  show ?thesis .
qed

lemma idle_no_checks:
  "list_all (\<lambda>w. w = AtRange \<or> w = Exited) ws \<Longrightarrow>
   sum_list (map in_checkURL ws) = 0 \<and> sum_list (map holds_token ws) = 0"
  by (induction ws) auto

text \<open>From every state of a call that never panics, the call can run on until it returns.\<close>

lemma runs_to_return:
  assumes cap: "semaphore_cap hc = nat (Concurrency (config hc))" "0 < results_cap hc"
    and nonneg: "0 \<le> Concurrency (config hc)"
    and no_panic: "\<And>s. CheckAll_reaches hc now urls s \<Longrightarrow> panicked s = None"
  shows "CheckAll_reaches hc now urls s \<Longrightarrow>
    \<exists>s'. CheckAll_reaches hc now urls s' \<and> returned s'"
proof (induction "steps_left s" arbitrary: s rule: less_induct)
  case less
  show ?case
  proof (cases "returned s")
    case True
    with less.prems show ?thesis by blast
  next
    case False
    from can_step [OF reaches_sched_inv [OF nonneg less.prems] cap no_panic [OF less.prems] False]
    obtain s1 where s1: "step hc s s1" ..
    from less.hyps [OF step_steps_left [OF s1] CheckAll_reaches.after [OF less.prems s1]]
    show ?thesis .
  qed
qed


lemma step_check_uses_ctx:
  assumes "step hc s s'" "i < length (workers s)" "workers s ! i = AtCheck u"
    "workers s' ! i = AtSend r"
  shows "\<exists>env. fst (checkURL (config hc) env (ctx_deadline s) u) = Inr r"
  using assms
proof (induction rule: step.induct)
  case (check s j v env r')
  then show ?case
    by (cases "i = j") auto
qed (auto simp: nth_list_update split: if_splits)

lemma timeout_product:
  fixes t :: duration
  assumes "- (2 ^ 63) \<le> sint t * int n" "sint t * int n < 2 ^ 63"
  shows "sint (t * word_of_nat n) = sint t * int n"
proof -
  have "t * word_of_nat n = word_of_int (sint t * int n)"
    by simp
  then show ?thesis
    using sint_word64_of_int [OF assms] by simp
qed

lemma CheckAll_init_overflow:
  assumes "2 ^ 31 \<le> Concurrency (config hc)" "Concurrency (config hc) < 2 ^ 32"
  shows "CheckAll_init hc now urls = Inl NegativeWaitGroupCounter"
proof -
  let ?C = "Concurrency (config hc)"
  from assms(1) have "signed_take_bit 31 ?C \<le> ?C - 2 ^ Suc 31"
    by (intro signed_take_bit_int_less_eq) simp
  with assms(2) have "signed_take_bit (LENGTH(32) - 1) ?C < 0"
    by (simp del: signed_take_bit_negative_iff)
  then have "sint (word_of_int ?C :: 32 word) < 0"
    unfolding sint_sbintrunc' .
  then show ?thesis
    by (simp add: CheckAll_init_def WaitGroup_Add_def)
qed

text \<open>
  Of a \<^verbatim>\<open>Concurrency\<close> of \<open>2^32\<close> or more the wait group keeps the low 32 bits only: with
  \<open>2^32 + 1\<close> it counts 1 for the \<open>2^32 + 1\<close> workers started.
\<close>

lemma CheckAll_init_truncates:
  assumes "Concurrency (config hc) = 2 ^ 32 + 1"
  shows "\<exists>s0. CheckAll_init hc now urls = Inr s0 \<and> wg s0 = 1
    \<and> length (workers s0) = 4294967297"
  using assms by (simp add: CheckAll_init_def WaitGroup_Add_def)



text \<open>
  Claim C1 says that \<^verbatim>\<open>CheckAll\<close> returns one result per endpoint for every positive
  \<^verbatim>\<open>maxConcurrency\<close>. With \<^verbatim>\<open>Concurrency\<close> = 2147483648, \<open>NewHealthChecker\<close> builds a
  checker, and \<^verbatim>\<open>hc.wg.Add\<close> at the start of \<^verbatim>\<open>CheckAll\<close> panics on a negative counter; so
  does \<^verbatim>\<open>main\<close> with \<^verbatim>\<open>-concurrent=2147483648\<close> and one endpoint.
\<close>

theorem C1_counterexample:
  "NewHealthChecker (Some (default_config\<lparr>Concurrency := 2147483648\<rparr>)) =
     Inr \<lparr>config = default_config\<lparr>Concurrency := 2147483648\<rparr>,
           semaphore_cap = 2147483648, results_cap = 100\<rparr>
   \<and> CheckAll_init
       \<lparr>config = default_config\<lparr>Concurrency := 2147483648\<rparr>,
         semaphore_cap = 2147483648, results_cap = 100\<rparr>
       0 [''example.com''] = Inl NegativeWaitGroupCounter
   \<and> main_startup
       \<lparr>timeout = 10 * Second, concurrent = 2147483648, retries = 1, outputFormat = ''table''\<rparr>
       [''example.com''] 0 = StartupPanic NegativeWaitGroupCounter"
  by (simp add: NewHealthChecker_def default_config_def main_startup_def CheckAll_init_def
      WaitGroup_Add_def)

text \<open>
  Claim C1, as the code has it. Take a checker built by \<open>NewHealthChecker\<close> with
  \<^verbatim>\<open>Concurrency\<close> from 1 to \<open>2^31 - 1\<close> (and \<^verbatim>\<open>Retries\<close> \<open>\<ge> 0\<close>, as the data model of the
  specification requires). Then \<^verbatim>\<open>CheckAll(urls)\<close> starts, a state in which it has
  returned can be reached, and in every state \<open>s\<close> the call can be in, under any interleaving
  of the goroutines and any behaviour of the network: the call has not panicked; if it has
  returned, \<^verbatim>\<open>allResults\<close> holds exactly \<^verbatim>\<open>len(urls)\<close> results, and their URLs are, as a
  multiset, the normalized input URLs (one result per submitted endpoint, no duplicate, no
  omission); if it has not returned, some goroutine can take a step (no deadlock); and
  every step lowers \<open>steps_left\<close> (no infinite run). With \<^verbatim>\<open>Concurrency\<close> from \<open>2^31\<close> to
  \<open>2^32 - 1\<close>, \<^verbatim>\<open>CheckAll\<close> panics in \<^verbatim>\<open>hc.wg.Add\<close> before any goroutine starts.
\<close>

theorem C1_one_result_per_endpoint:
  "(NewHealthChecker c = Inr hc \<and> 0 < Concurrency (config hc)
      \<and> Concurrency (config hc) < 2 ^ 31 \<and> 0 \<le> MaxRetries (config hc) \<longrightarrow>
      (\<exists>s0. CheckAll_init hc now urls = Inr s0)
      \<and> (\<exists>s. CheckAll_reaches hc now urls s \<and> returned s)
      \<and> (\<forall>s. CheckAll_reaches hc now urls s \<longrightarrow>
            panicked s = None
            \<and> (returned s \<longrightarrow>
                  length (allResults s) = length urls
                  \<and> mset (map URL (allResults s)) = mset (map normalizeURL urls))
            \<and> (\<not> returned s \<longrightarrow> (\<exists>s'. step hc s s'))
            \<and> (\<forall>s'. step hc s s' \<longrightarrow> steps_left s' < steps_left s)))
   \<and> (2 ^ 31 \<le> Concurrency (config hc) \<and> Concurrency (config hc) < 2 ^ 32 \<longrightarrow>
        CheckAll_init hc now urls = Inl NegativeWaitGroupCounter)"
proof (intro conjI)
  show "2 ^ 31 \<le> Concurrency (config hc) \<and> Concurrency (config hc) < 2 ^ 32 \<longrightarrow>
        CheckAll_init hc now urls = Inl NegativeWaitGroupCounter"
    by (simp add: CheckAll_init_overflow)
next
  show "NewHealthChecker c = Inr hc \<and> 0 < Concurrency (config hc)
      \<and> Concurrency (config hc) < 2 ^ 31 \<and> 0 \<le> MaxRetries (config hc) \<longrightarrow>
      (\<exists>s0. CheckAll_init hc now urls = Inr s0)
      \<and> (\<exists>s. CheckAll_reaches hc now urls s \<and> returned s)
      \<and> (\<forall>s. CheckAll_reaches hc now urls s \<longrightarrow>
            panicked s = None
            \<and> (returned s \<longrightarrow>
                  length (allResults s) = length urls
                  \<and> mset (map URL (allResults s)) = mset (map normalizeURL urls))
            \<and> (\<not> returned s \<longrightarrow> (\<exists>s'. step hc s s'))
            \<and> (\<forall>s'. step hc s s' \<longrightarrow> steps_left s' < steps_left s))"
  proof
    assume h: "NewHealthChecker c = Inr hc \<and> 0 < Concurrency (config hc)
      \<and> Concurrency (config hc) < 2 ^ 31 \<and> 0 \<le> MaxRetries (config hc)"
    then have new: "NewHealthChecker c = Inr hc" and workers: "0 < Concurrency (config hc)"
      and fits: "Concurrency (config hc) < 2 ^ 31" and retries: "0 \<le> MaxRetries (config hc)"
      by simp_all
    from workers have nonneg: "0 \<le> Concurrency (config hc)" by simp
    from NewHealthChecker_Inr [OF new]
    have cap: "semaphore_cap hc = nat (Concurrency (config hc))" "0 < results_cap hc"
      by simp_all
    have no_panic: "panicked s = None" if "CheckAll_reaches hc now urls s" for s
      by (rule reaches_no_panic [OF that retries nonneg fits])
    from CheckAll_init_starts [OF nonneg fits]
    obtain s0 where s0: "CheckAll_init hc now urls = Inr s0" ..
    then have "CheckAll_reaches hc now urls s0"
      by (rule CheckAll_reaches.start)
    from runs_to_return [OF cap nonneg no_panic this]
    have returns: "\<exists>s. CheckAll_reaches hc now urls s \<and> returned s" .
    have every: "panicked s = None
            \<and> (returned s \<longrightarrow>
                  length (allResults s) = length urls
                  \<and> mset (map URL (allResults s)) = mset (map normalizeURL urls))
            \<and> (\<not> returned s \<longrightarrow> (\<exists>s'. step hc s s'))
            \<and> (\<forall>s'. step hc s s' \<longrightarrow> steps_left s' < steps_left s)"
      if reach: "CheckAll_reaches hc now urls s" for s
    proof -
      note inv = reaches_sched_inv [OF nonneg reach]
      have results: "length (allResults s) = length urls
          \<and> mset (map URL (allResults s)) = mset (map normalizeURL urls)" if "returned s"
      proof -
        from returned_results [OF inv that workers fits]
        have eq: "mset (map URL (allResults s)) = mset (map normalizeURL urls)" .
        then have "length (map URL (allResults s)) = length (map normalizeURL urls)"
          by (rule mset_eq_length)
        with eq show ?thesis by simp
      qed
      have progress: "\<exists>s'. step hc s s'" if "\<not> returned s"
        by (rule can_step [OF inv cap no_panic [OF reach] that])
      have finite: "\<forall>s'. step hc s s' \<longrightarrow> steps_left s' < steps_left s"
        by (simp add: step_steps_left)
      from no_panic [OF reach] results progress finite show ?thesis by blast
    qed
    from s0 returns every
    show "(\<exists>s0. CheckAll_init hc now urls = Inr s0)
      \<and> (\<exists>s. CheckAll_reaches hc now urls s \<and> returned s)
      \<and> (\<forall>s. CheckAll_reaches hc now urls s \<longrightarrow>
            panicked s = None
            \<and> (returned s \<longrightarrow>
                  length (allResults s) = length urls
                  \<and> mset (map URL (allResults s)) = mset (map normalizeURL urls))
            \<and> (\<not> returned s \<longrightarrow> (\<exists>s'. step hc s s'))
            \<and> (\<forall>s'. step hc s s' \<longrightarrow> steps_left s' < steps_left s))"
      by blast
  qed
qed

text \<open>
  The default configuration (five workers) on three endpoints, two of them equal: the call
  can return, and then it returns three results, with the repeated endpoint twice.
\<close>

theorem C1_one_result_per_endpoint_witness:
  "NewHealthChecker (Some default_config) =
     Inr \<lparr>config = default_config, semaphore_cap = 5, results_cap = 100\<rparr>
   \<and> (\<exists>s. CheckAll_reaches \<lparr>config = default_config, semaphore_cap = 5, results_cap = 100\<rparr> 0
           [''example.com'', ''http://localhost:8080'', ''example.com''] s
         \<and> returned s \<and> panicked s = None \<and> length (allResults s) = 3
         \<and> mset (map URL (allResults s)) =
             {#''https://example.com'', ''http://localhost:8080'', ''https://example.com''#})"
proof -
  let ?hc = "\<lparr>config = default_config, semaphore_cap = 5, results_cap = 100\<rparr>"
  let ?urls = "[''example.com'', ''http://localhost:8080'', ''example.com'']"
  have new: "NewHealthChecker (Some default_config) = Inr ?hc"
    by (simp add: NewHealthChecker_def default_config_def)
  have "0 < Concurrency (config ?hc) \<and> Concurrency (config ?hc) < 2 ^ 31
      \<and> 0 \<le> MaxRetries (config ?hc)"
    by (simp add: default_config_def)
  with new C1_one_result_per_endpoint [of "Some default_config" ?hc 0 ?urls]
  have returns: "\<exists>s. CheckAll_reaches ?hc 0 ?urls s \<and> returned s"
    and every: "\<forall>s. CheckAll_reaches ?hc 0 ?urls s \<longrightarrow>
            panicked s = None
            \<and> (returned s \<longrightarrow>
                  length (allResults s) = length ?urls
                  \<and> mset (map URL (allResults s)) = mset (map normalizeURL ?urls))"
    by blast+
  from returns obtain s where s: "CheckAll_reaches ?hc 0 ?urls s" "returned s"
    by blast
  with every have "panicked s = None" "length (allResults s) = length ?urls"
    "mset (map URL (allResults s)) = mset (map normalizeURL ?urls)"
    by blast+
  then have "panicked s = None \<and> length (allResults s) = 3
         \<and> mset (map URL (allResults s)) =
             {#''https://example.com'', ''http://localhost:8080'', ''https://example.com''#}"
    by (simp add: normalizeURL_def HasPrefix_def)
  with new s show ?thesis by blast
qed




text \<open>
  Claim C7. In every state a call \<^verbatim>\<open>CheckAll(urls)\<close> made at time \<open>now\<close> can be in, the
  deadline of \<^verbatim>\<open>ctx\<close> is \<open>now\<close> plus the \<^verbatim>\<open>Duration\<close> product
  \<^verbatim>\<open>Timeout * Duration(len(urls))\<close>; this is \<open>now\<close> plus the product of the two numbers
  whenever that product is within the 64-bit range of \<^verbatim>\<open>Duration\<close>; and every check that any
  worker completes was run by \<open>checkURL\<close> under this one deadline.
\<close>

theorem C7_overall_deadline:
  assumes "CheckAll_reaches hc now urls s"
  shows "ctx_deadline s = now + sint (Timeout (config hc) * word_of_nat (length urls))
    \<and> (- (2 ^ 63) \<le> sint (Timeout (config hc)) * int (length urls)
         \<and> sint (Timeout (config hc)) * int (length urls) < 2 ^ 63 \<longrightarrow>
       ctx_deadline s = now + sint (Timeout (config hc)) * int (length urls))
    \<and> (\<forall>s' i u r. step hc s s' \<and> i < length (workers s) \<and> workers s ! i = AtCheck u
          \<and> workers s' ! i = AtSend r \<longrightarrow>
        (\<exists>env. fst (checkURL (config hc) env
                 (now + sint (Timeout (config hc) * word_of_nat (length urls))) u) = Inr r))"
proof -
  from reaches_ctx_deadline [OF assms]
  have ctx: "ctx_deadline s = now + sint (Timeout (config hc) * word_of_nat (length urls))"
    unfolding CheckAll_timeout_def .
  moreover have "ctx_deadline s = now + sint (Timeout (config hc)) * int (length urls)"
    if "- (2 ^ 63) \<le> sint (Timeout (config hc)) * int (length urls)
         \<and> sint (Timeout (config hc)) * int (length urls) < 2 ^ 63"
    using that ctx by (simp add: timeout_product)
  moreover have "\<exists>env. fst (checkURL (config hc) env
        (now + sint (Timeout (config hc) * word_of_nat (length urls))) u) = Inr r"
    if "step hc s s' \<and> i < length (workers s) \<and> workers s ! i = AtCheck u
          \<and> workers s' ! i = AtSend r" for s' i u r
    using that step_check_uses_ctx [of hc s s' i u r] ctx by auto
  ultimately show ?thesis by blast
qed

text \<open>Three endpoints at time 1000 with the default timeout of 10 s: the deadline is 1000 + 30 s.\<close>

theorem C7_overall_deadline_witness:
  "NewHealthChecker (Some (default_config\<lparr>Concurrency := 1\<rparr>)) =
     Inr \<lparr>config = default_config\<lparr>Concurrency := 1\<rparr>, semaphore_cap = 1, results_cap = 100\<rparr>
   \<and> CheckAll_reaches
       \<lparr>config = default_config\<lparr>Concurrency := 1\<rparr>, semaphore_cap = 1, results_cap = 100\<rparr>
       1000 [''a.example'', ''b.example'', ''c.example'']
       \<lparr>ctx_deadline = 1000 + 30000000000,
        to_send = [''a.example'', ''b.example'', ''c.example''],
        urlChan = [], urlChan_cap = 3, urlChan_closed = False,
        workers = [AtRange], semaphore = 0,
        results = [], results_closed = False, wg = 1,
        allResults = [], returned = False, panicked = None\<rparr>
   \<and> 1000 + 30000000000 = 1000 + sint (Timeout (default_config\<lparr>Concurrency := 1\<rparr>)) * 3"
proof -
  let ?cfg = "default_config\<lparr>Concurrency := 1\<rparr>"
  let ?hc = "\<lparr>config = ?cfg, semaphore_cap = 1, results_cap = 100\<rparr>"
  let ?urls = "[''a.example'', ''b.example'', ''c.example'']"
  let ?s0 = "\<lparr>ctx_deadline = 1000 + 30000000000, to_send = ?urls,
      urlChan = [], urlChan_cap = 3, urlChan_closed = False,
      workers = [AtRange], semaphore = 0,
      results = [], results_closed = False, wg = 1,
      allResults = [], returned = False, panicked = None\<rparr>"
  have new: "NewHealthChecker (Some ?cfg) = Inr ?hc"
    by (simp add: NewHealthChecker_def default_config_def)
  have "CheckAll_init ?hc 1000 ?urls = Inr ?s0"
    by (simp add: CheckAll_init_def WaitGroup_Add_def CheckAll_timeout_def default_config_def
        Second_def Millisecond_def)
  then have r0: "CheckAll_reaches ?hc 1000 ?urls ?s0"
    by (rule CheckAll_reaches.start)
  have t: "sint (Timeout ?cfg) = 10000000000"
    by (simp add: default_config_def Second_def Millisecond_def)
  from C7_overall_deadline [OF r0] new r0 t show ?thesis
    by simp
qed

section \<open>Properties of PrintStats\<close>

lemma stats_loop_eq:
  "stats_loop rs (t, a, b) =
     (t + sum_list (map Duration rs),
      a + int (length (filter (\<lambda>r. Status r = ''success'') rs)),
      b + int (length (filter (\<lambda>r. Status r \<noteq> ''success'') rs)))"
  by (induction rs arbitrary: t a b) (simp_all add: add.assoc)

text \<open>
  Claim C9. For a non-empty list, \<open>PrintStats\<close> computes the total as the sum of the
  durations, the average as the total divided by the number of results, the success count as
  the number of results whose status is \<^verbatim>\<open>success\<close>, and the error count as the number of all
  others. On two results, the first \<^verbatim>\<open>success\<close> with 100 ms and the second \<^verbatim>\<open>error\<close> with
  200 ms, it gives 1 success, 1 error, an average of 150 ms, a total of 300 ms and a success
  rate of 50 percent.
\<close>

theorem C9_PrintStats:
  "(rs \<noteq> [] \<longrightarrow>
      PrintStats rs =
        Some \<lparr>checks = int (length rs),
               successCount = int (length (filter (\<lambda>r. Status r = ''success'') rs)),
               errorCount = int (length (filter (\<lambda>r. Status r \<noteq> ''success'') rs)),
               avgTime = duration_div (sum_list (map Duration rs)) (word_of_nat (length rs)),
               totalTime = sum_list (map Duration rs),
               successRate =
                 of_nat (length (filter (\<lambda>r. Status r = ''success'') rs)) / of_nat (length rs)
                   * 100\<rparr>)
   \<and> (Status r1 = ''success'' \<and> Duration r1 = 100 * Millisecond
        \<and> Status r2 = ''error'' \<and> Duration r2 = 200 * Millisecond \<longrightarrow>
      PrintStats [r1, r2] =
        Some \<lparr>checks = 2, successCount = 1, errorCount = 1,
               avgTime = 150 * Millisecond, totalTime = 300 * Millisecond, successRate = 50\<rparr>)"
proof (intro conjI impI)
  assume "rs \<noteq> []"
  then show "PrintStats rs =
        Some \<lparr>checks = int (length rs),
               successCount = int (length (filter (\<lambda>r. Status r = ''success'') rs)),
               errorCount = int (length (filter (\<lambda>r. Status r \<noteq> ''success'') rs)),
               avgTime = duration_div (sum_list (map Duration rs)) (word_of_nat (length rs)),
               totalTime = sum_list (map Duration rs),
               successRate =
                 of_nat (length (filter (\<lambda>r. Status r = ''success'') rs)) / of_nat (length rs)
                   * 100\<rparr>"
    by (simp add: PrintStats_def stats_loop_eq)
next
  assume "Status r1 = ''success'' \<and> Duration r1 = 100 * Millisecond
        \<and> Status r2 = ''error'' \<and> Duration r2 = 200 * Millisecond"
  then show "PrintStats [r1, r2] =
        Some \<lparr>checks = 2, successCount = 1, errorCount = 1,
               avgTime = 150 * Millisecond, totalTime = 300 * Millisecond, successRate = 50\<rparr>"
    by (simp add: PrintStats_def duration_div_def Millisecond_def signed_divide_int_def)
qed

text \<open>The two results of the claim, written out.\<close>

theorem C9_PrintStats_witness:
  "PrintStats
     [\<lparr>URL = ''https://a.example'', Status = ''success'', StatusCode = 200, Error = [],
        Duration = 100 * Millisecond, Timestamp = 0, Retries = 0\<rparr>,
      \<lparr>URL = ''https://b.example'', Status = ''error'', StatusCode = 500, Error = [],
        Duration = 200 * Millisecond, Timestamp = 0, Retries = 0\<rparr>]
   = Some \<lparr>checks = 2, successCount = 1, errorCount = 1,
            avgTime = 150 * Millisecond, totalTime = 300 * Millisecond, successRate = 50\<rparr>
   \<and> sum_list (map Duration
       [\<lparr>URL = ''https://a.example'', Status = ''success'', StatusCode = 200, Error = [],
          Duration = 100 * Millisecond, Timestamp = 0, Retries = 0\<rparr>,
        \<lparr>URL = ''https://b.example'', Status = ''error'', StatusCode = 500, Error = [],
          Duration = 200 * Millisecond, Timestamp = 0, Retries = 0\<rparr>]) = 300 * Millisecond"
  using C9_PrintStats [of
      "[\<lparr>URL = ''https://a.example'', Status = ''success'', StatusCode = 200, Error = [],
          Duration = 100 * Millisecond, Timestamp = 0, Retries = 0\<rparr>,
        \<lparr>URL = ''https://b.example'', Status = ''error'', StatusCode = 500, Error = [],
          Duration = 200 * Millisecond, Timestamp = 0, Retries = 0\<rparr>]"
      "\<lparr>URL = ''https://a.example'', Status = ''success'', StatusCode = 200, Error = [],
          Duration = 100 * Millisecond, Timestamp = 0, Retries = 0\<rparr>"
      "\<lparr>URL = ''https://b.example'', Status = ''error'', StatusCode = 500, Error = [],
          Duration = 200 * Millisecond, Timestamp = 0, Retries = 0\<rparr>"]
  by (simp add: Millisecond_def duration_div_def signed_divide_int_def)

text \<open>
  Claim C2 says that a call with \<^verbatim>\<open>maxConcurrency\<close> \<open>\<le> 0\<close> fails with a configuration error and
  does not return a normal empty result. With \<^verbatim>\<open>Concurrency\<close> = 0, \<open>NewHealthChecker\<close> builds a
  checker, and \<^verbatim>\<open>CheckAll\<close> on one endpoint reaches the state in which it has returned an empty
  \<^verbatim>\<open>allResults\<close> without a panic, the endpoint still unsent.
\<close>

theorem C2_counterexample:
  "NewHealthChecker (Some (default_config\<lparr>Concurrency := 0\<rparr>)) =
     Inr \<lparr>config = default_config\<lparr>Concurrency := 0\<rparr>, semaphore_cap = 0, results_cap = 100\<rparr>
   \<and> CheckAll_reaches
       \<lparr>config = default_config\<lparr>Concurrency := 0\<rparr>, semaphore_cap = 0, results_cap = 100\<rparr>
       0 [''example.com'']
       \<lparr>ctx_deadline = 10000000000, to_send = [''example.com''],
        urlChan = [], urlChan_cap = 1, urlChan_closed = False,
        workers = [], semaphore = 0,
        results = [], results_closed = True, wg = 0,
        allResults = [], returned = True, panicked = None\<rparr>"
proof -
  let ?cfg = "default_config\<lparr>Concurrency := 0\<rparr>"
  let ?hc = "\<lparr>config = ?cfg, semaphore_cap = 0, results_cap = 100\<rparr>"
  let ?urls = "[''example.com'']"
  let ?s0 = "\<lparr>ctx_deadline = 10000000000, to_send = ?urls,
      urlChan = [], urlChan_cap = 1, urlChan_closed = False,
      workers = [], semaphore = 0,
      results = [], results_closed = False, wg = 0,
      allResults = [], returned = False, panicked = None\<rparr>"
  let ?s1 = "?s0\<lparr>results_closed := True\<rparr>"
  let ?s2 = "?s1\<lparr>returned := True\<rparr>"
  have new: "NewHealthChecker (Some ?cfg) = Inr ?hc"
    by (simp add: NewHealthChecker_def default_config_def)
  have "CheckAll_init ?hc 0 ?urls = Inr ?s0"
    by (simp add: CheckAll_init_def WaitGroup_Add_def CheckAll_timeout_def default_config_def
        Second_def Millisecond_def)
  then have r0: "CheckAll_reaches ?hc 0 ?urls ?s0"
    by (rule CheckAll_reaches.start)
  have "step ?hc ?s0 ?s1"
    using step.close_results [where s = ?s0 and hc = ?hc] by simp
  note r1 = CheckAll_reaches.after [OF r0 this]
  have "step ?hc ?s1 ?s2"
    using step.return_allResults [where s = ?s1 and hc = ?hc] by simp
  note r2 = CheckAll_reaches.after [OF r1 this]
  from new r2 show ?thesis by simp
qed

text \<open>
  Claim C2, as the code has it. \<^verbatim>\<open>main\<close> answers an empty endpoint list with the usage text
  and exit status 1, before a checker is built. A negative \<^verbatim>\<open>Concurrency\<close> makes
  \<open>NewHealthChecker\<close> panic on the size of the semaphore channel, and a \<^verbatim>\<open>Concurrency\<close> from
  \<open>2^31\<close> to \<open>2^32 - 1\<close> makes \<^verbatim>\<open>CheckAll\<close> panic in \<^verbatim>\<open>hc.wg.Add\<close>, in both cases before any
  work is dispatched. Beyond that \<^verbatim>\<open>CheckAll\<close> checks nothing: on a checker with
  \<^verbatim>\<open>Concurrency\<close> = 0, or on an empty list with \<^verbatim>\<open>Concurrency\<close> below \<open>2^31\<close>, the call starts,
  no check is ever started, no result exists, the call never panics and never blocks for
  ever, and it returns an empty \<^verbatim>\<open>allResults\<close>.
\<close>

theorem C2_configuration:
  "main_startup flags [] now = UsageExit 1
   \<and> (Concurrency cfg < 0 \<longrightarrow> NewHealthChecker (Some cfg) = Inl MakechanSizeOutOfRange)
   \<and> (2 ^ 31 \<le> Concurrency (config hc) \<and> Concurrency (config hc) < 2 ^ 32 \<longrightarrow>
        CheckAll_init hc now urls = Inl NegativeWaitGroupCounter)
   \<and> (NewHealthChecker c = Inr hc
        \<and> (Concurrency (config hc) = 0 \<or> urls = [] \<and> Concurrency (config hc) < 2 ^ 31) \<longrightarrow>
      (\<exists>s0. CheckAll_init hc now urls = Inr s0)
      \<and> (\<exists>s. CheckAll_reaches hc now urls s \<and> returned s \<and> allResults s = [])
      \<and> (\<forall>s. CheckAll_reaches hc now urls s \<longrightarrow>
            panicked s = None \<and> checks_in_flight s = 0 \<and> semaphore s = 0
            \<and> results s = [] \<and> allResults s = []
            \<and> (\<not> returned s \<longrightarrow> (\<exists>s'. step hc s s'))
            \<and> (\<forall>s'. step hc s s' \<longrightarrow> steps_left s' < steps_left s)))"
proof (intro conjI)
  show "main_startup flags [] now = UsageExit 1"
    by (simp add: main_startup_def)
next
  show "Concurrency cfg < 0 \<longrightarrow> NewHealthChecker (Some cfg) = Inl MakechanSizeOutOfRange"
    by (simp add: NewHealthChecker_def)
next
  show "2 ^ 31 \<le> Concurrency (config hc) \<and> Concurrency (config hc) < 2 ^ 32 \<longrightarrow>
        CheckAll_init hc now urls = Inl NegativeWaitGroupCounter"
    by (simp add: CheckAll_init_overflow)
next
  show "NewHealthChecker c = Inr hc
        \<and> (Concurrency (config hc) = 0 \<or> urls = [] \<and> Concurrency (config hc) < 2 ^ 31) \<longrightarrow>
      (\<exists>s0. CheckAll_init hc now urls = Inr s0)
      \<and> (\<exists>s. CheckAll_reaches hc now urls s \<and> returned s \<and> allResults s = [])
      \<and> (\<forall>s. CheckAll_reaches hc now urls s \<longrightarrow>
            panicked s = None \<and> checks_in_flight s = 0 \<and> semaphore s = 0
            \<and> results s = [] \<and> allResults s = []
            \<and> (\<not> returned s \<longrightarrow> (\<exists>s'. step hc s s'))
            \<and> (\<forall>s'. step hc s s' \<longrightarrow> steps_left s' < steps_left s))"
  proof
    assume h: "NewHealthChecker c = Inr hc
        \<and> (Concurrency (config hc) = 0 \<or> urls = [] \<and> Concurrency (config hc) < 2 ^ 31)"
    from h have new: "NewHealthChecker c = Inr hc" ..
    from NewHealthChecker_Inr [OF new]
    have cap: "semaphore_cap hc = nat (Concurrency (config hc))"
      and nonneg: "0 \<le> Concurrency (config hc)"
      and "results_cap hc = 100"
      by blast+
    then have cap: "semaphore_cap hc = nat (Concurrency (config hc))" "0 < results_cap hc"
      by simp_all
    from h have no_work: "Concurrency (config hc) = 0 \<or> urls = []"
      and fits: "Concurrency (config hc) < 2 ^ 31"
      by auto
    have idle: "idle s" if "CheckAll_reaches hc now urls s" for s
      by (rule reaches_idle [OF no_work that])
    have no_panic: "panicked s = None" if "CheckAll_reaches hc now urls s" for s
      by (rule reaches_idle_no_panic [OF no_work that nonneg fits])
    from CheckAll_init_starts [OF nonneg fits]
    obtain s0 where s0: "CheckAll_init hc now urls = Inr s0" ..
    then have "CheckAll_reaches hc now urls s0"
      by (rule CheckAll_reaches.start)
    from runs_to_return [OF cap nonneg no_panic this]
    obtain s' where s': "CheckAll_reaches hc now urls s'" "returned s'"
      by blast
    from idle [OF s'(1)] have "allResults s' = []"
      by (simp add: idle_def)
    with s' have returns: "\<exists>s. CheckAll_reaches hc now urls s \<and> returned s \<and> allResults s = []"
      by blast
    have every: "panicked s = None \<and> checks_in_flight s = 0 \<and> semaphore s = 0
            \<and> results s = [] \<and> allResults s = []
            \<and> (\<not> returned s \<longrightarrow> (\<exists>s'. step hc s s'))
            \<and> (\<forall>s'. step hc s s' \<longrightarrow> steps_left s' < steps_left s)"
      if reach: "CheckAll_reaches hc now urls s" for s
    proof -
      note inv = reaches_sched_inv [OF nonneg reach]
      from idle [OF reach] have all: "list_all (\<lambda>w. w = AtRange \<or> w = Exited) (workers s)"
        and res: "results s = []" "allResults s = []"
        by (simp_all add: idle_def)
      from inv have sem: "semaphore s = tokens_held s"
        unfolding sched_inv_def by blast
      from idle_no_checks [OF all] sem
      have none: "checks_in_flight s = 0" "semaphore s = 0"
        by (simp_all add: checks_in_flight_def tokens_held_def)
      have progress: "\<exists>s'. step hc s s'" if "\<not> returned s"
        by (rule can_step [OF inv cap no_panic [OF reach] that])
      have finite: "\<forall>s'. step hc s s' \<longrightarrow> steps_left s' < steps_left s"
        by (simp add: step_steps_left)
      from no_panic [OF reach] none res progress finite show ?thesis by blast
    qed
    from s0 returns every
    show "(\<exists>s0. CheckAll_init hc now urls = Inr s0)
      \<and> (\<exists>s. CheckAll_reaches hc now urls s \<and> returned s \<and> allResults s = [])
      \<and> (\<forall>s. CheckAll_reaches hc now urls s \<longrightarrow>
            panicked s = None \<and> checks_in_flight s = 0 \<and> semaphore s = 0
            \<and> results s = [] \<and> allResults s = []
            \<and> (\<not> returned s \<longrightarrow> (\<exists>s'. step hc s s'))
            \<and> (\<forall>s'. step hc s s' \<longrightarrow> steps_left s' < steps_left s))"
      by blast
  qed
qed

text \<open>
  \<^verbatim>\<open>Concurrency\<close> = -1 panics in \<open>NewHealthChecker\<close>; \<^verbatim>\<open>Concurrency\<close> = 3000000000 panics in
  \<^verbatim>\<open>hc.wg.Add\<close>; the default checker on the empty list returns the empty list.
\<close>

theorem C2_configuration_witness:
  "main_startup \<lparr>timeout = 10 * Second, concurrent = 5, retries = 1, outputFormat = ''table''\<rparr>
     [] 0 = UsageExit 1
   \<and> NewHealthChecker (Some (default_config\<lparr>Concurrency := - 1\<rparr>)) = Inl MakechanSizeOutOfRange
   \<and> CheckAll_init
       \<lparr>config = default_config\<lparr>Concurrency := 3000000000\<rparr>, semaphore_cap = 3000000000,
         results_cap = 100\<rparr> 0 [] = Inl NegativeWaitGroupCounter
   \<and> NewHealthChecker (Some default_config) =
       Inr \<lparr>config = default_config, semaphore_cap = 5, results_cap = 100\<rparr>
   \<and> (\<exists>s. CheckAll_reaches \<lparr>config = default_config, semaphore_cap = 5, results_cap = 100\<rparr>
           0 [] s
         \<and> returned s \<and> allResults s = [] \<and> panicked s = None)"
proof -
  let ?hc = "\<lparr>config = default_config, semaphore_cap = 5, results_cap = 100\<rparr>"
  let ?big = "\<lparr>config = default_config\<lparr>Concurrency := 3000000000\<rparr>,
      semaphore_cap = 3000000000, results_cap = 100\<rparr>"
  let ?flags = "\<lparr>timeout = 10 * Second, concurrent = 5, retries = 1, outputFormat = ''table''\<rparr>"
  have neg: "Concurrency (default_config\<lparr>Concurrency := - 1\<rparr>) < 0"
    by simp
  have big: "2 ^ 31 \<le> Concurrency (config ?big) \<and> Concurrency (config ?big) < 2 ^ 32"
    by simp
  have new: "NewHealthChecker (Some default_config) = Inr ?hc"
    by (simp add: NewHealthChecker_def default_config_def)
  have empty: "Concurrency (config ?hc) = 0 \<or> [] = ([] :: string list) \<and> Concurrency (config ?hc) < 2 ^ 31"
    by (simp add: default_config_def)
  from new empty
    C2_configuration [of ?flags 0 "default_config\<lparr>Concurrency := - 1\<rparr>" ?hc "[]"
      "Some default_config"]
  obtain s where s: "CheckAll_reaches ?hc 0 [] s" "returned s" "allResults s = []"
    and every: "\<forall>s. CheckAll_reaches ?hc 0 [] s \<longrightarrow> panicked s = None"
    by blast
  from every s(1) have "panicked s = None"
    by blast
  with s new neg big
    C2_configuration [of ?flags 0 "default_config\<lparr>Concurrency := - 1\<rparr>" ?big "[]"
      "Some default_config"]
  show ?thesis by blast
qed

end
